theory Spec2Isabelle
  imports Main "HOL-Library.Sublist" "HOL-Library.Product_Lexorder"
begin

section \<open>Python strings\<close>

text \<open>
  Texts are lists of 8-bit characters (code points below 256). The string operations
  below follow the Python \<^verbatim>\<open>str\<close> methods the scripts call.
\<close>

definition is_space :: "char \<Rightarrow> bool" where
  "is_space c = ((of_char c :: nat) \<in> {9, 10, 11, 12, 13, 28, 29, 30, 31, 32, 133, 160})"

definition is_digit :: "char \<Rightarrow> bool" where
  "is_digit c = (let n = (of_char c :: nat) in 48 \<le> n \<and> n \<le> 57)"

definition is_alnum :: "char \<Rightarrow> bool" where
  \<comment> \<open>the class \<^verbatim>\<open>[0-9a-zA-Z]\<close>\<close>
  "is_alnum c = (let n = (of_char c :: nat) in
     (48 \<le> n \<and> n \<le> 57) \<or> (97 \<le> n \<and> n \<le> 122) \<or> (65 \<le> n \<and> n \<le> 90))"

definition is_upper :: "char \<Rightarrow> bool" where
  "is_upper c = (let n = (of_char c :: nat) in
     (65 \<le> n \<and> n \<le> 90) \<or> (192 \<le> n \<and> n \<le> 222 \<and> n \<noteq> 215))"

definition lower_char :: "char \<Rightarrow> char" where
  \<comment> \<open>an upper-case letter and its lower-case form differ in bit 5 only\<close>
  "lower_char c = (if is_upper c
     then (case c of Char b0 b1 b2 b3 b4 b5 b6 b7 \<Rightarrow> Char b0 b1 b2 b3 b4 True b6 b7)
     else c)"

definition py_lower :: "string \<Rightarrow> string" where
  \<comment> \<open>\<^verbatim>\<open>s.lower()\<close> for a text of code points below 256: there it works character by
      character. (The lower case of U+0130, outside this range, has two code points, so
      that in general the lower-cased text can be longer than the text.)\<close>
  "py_lower s = map lower_char s"

definition py_strip :: "string \<Rightarrow> string" where
  "py_strip s = rev (dropWhile is_space (rev (dropWhile is_space s)))"

definition py_rstrip :: "string \<Rightarrow> string \<Rightarrow> string" where
  \<comment> \<open>\<^verbatim>\<open>s.rstrip(chars)\<close>\<close>
  "py_rstrip chars s = rev (dropWhile (\<lambda>c. c \<in> set chars) (rev s))"

definition startswith :: "string \<Rightarrow> string \<Rightarrow> bool" where
  "startswith s p = prefix p s"

definition endswith :: "string \<Rightarrow> string \<Rightarrow> bool" where
  "endswith s p = prefix (rev p) (rev s)"

fun py_in :: "string \<Rightarrow> string \<Rightarrow> bool" where
  "py_in sub [] = (sub = [])"
| "py_in sub (c # cs) = (if prefix sub (c # cs) then True else py_in sub cs)"

fun py_find :: "string \<Rightarrow> string \<Rightarrow> nat option" where
  "py_find sub [] = (if sub = [] then Some 0 else None)"
| "py_find sub (c # cs) =
     (if prefix sub (c # cs) then Some 0 else map_option Suc (py_find sub cs))"

fun py_rfind :: "string \<Rightarrow> string \<Rightarrow> nat option" where
  "py_rfind sub [] = (if sub = [] then Some 0 else None)"
| "py_rfind sub (c # cs) =
     (case py_rfind sub cs of
        Some i \<Rightarrow> Some (Suc i)
      | None \<Rightarrow> if prefix sub (c # cs) then Some 0 else None)"

fun py_replace :: "string \<Rightarrow> string \<Rightarrow> string \<Rightarrow> string" where
  "py_replace old new [] = (if old = [] then new else [])"
| "py_replace old new (c # cs) =
     (if old = [] then new @ c # py_replace old new cs
      else if prefix old (c # cs) then new @ py_replace old new (drop (length old - 1) cs)
      else c # py_replace old new cs)"

definition split1 :: "string \<Rightarrow> string \<Rightarrow> string list" where
  \<comment> \<open>\<^verbatim>\<open>s.split(sep, 1)\<close> for a non-empty separator\<close>
  "split1 sep s = (case py_find sep s of
     None \<Rightarrow> [s]
   | Some i \<Rightarrow> [take i s, drop (i + length sep) s])"

definition is_linebreak :: "char \<Rightarrow> bool" where
  "is_linebreak c = ((of_char c :: nat) \<in> {10, 11, 12, 13, 28, 29, 30, 133})"

definition first_line :: "string \<Rightarrow> string option" where
  \<comment> \<open>\<^verbatim>\<open>s.splitlines()[0]\<close>; the empty text has no lines and the index raises\<close>
  "first_line s = (if s = [] then None else Some (takeWhile (\<lambda>c. \<not> is_linebreak c) s))"

definition join :: "string \<Rightarrow> string list \<Rightarrow> string" where
  \<comment> \<open>\<^verbatim>\<open>sep.join(xs)\<close>\<close>
  "join sep xs = (case xs of [] \<Rightarrow> [] | y # ys \<Rightarrow> y @ concat (map (\<lambda>z. sep @ z) ys))"

section \<open>Regular expressions\<close>

text \<open>
  The patterns of the scripts are sequences of literals and of greedy repetitions of a
  character class. \<open>re_match\<close> is the backtracking matcher anchored at the start of the
  text: it returns the length of the first match in the order Python tries them (a greedy
  repetition takes as many characters as it can and gives them back one at a time).
\<close>

datatype atom =
    Lit string
  | One "char \<Rightarrow> bool"
  | Star "char \<Rightarrow> bool"
  | Plus "char \<Rightarrow> bool"
  | Opt string
  | Eol

definition char_eq :: "bool \<Rightarrow> char \<Rightarrow> char \<Rightarrow> bool" where
  \<comment> \<open>under the flag \<^verbatim>\<open>(?i)\<close> characters are compared in lower case\<close>
  "char_eq ci p c = (if ci then lower_char c = lower_char p else c = p)"

fun lit_prefix :: "bool \<Rightarrow> string \<Rightarrow> string \<Rightarrow> bool" where
  "lit_prefix ci [] s = True"
| "lit_prefix ci (p # ps) [] = False"
| "lit_prefix ci (p # ps) (c # cs) = (if char_eq ci p c then lit_prefix ci ps cs else False)"

fun greedy :: "(nat \<Rightarrow> nat option) \<Rightarrow> nat \<Rightarrow> nat \<Rightarrow> nat option" where
  "greedy f lo 0 = (if lo = 0 then f 0 else None)"
| "greedy f lo (Suc h) =
     (if Suc h < lo then None
      else case f (Suc h) of Some n \<Rightarrow> Some (Suc h + n) | None \<Rightarrow> greedy f lo h)"

fun re_match :: "bool \<Rightarrow> atom list \<Rightarrow> string \<Rightarrow> nat option" where
  "re_match ci [] s = Some 0"
| "re_match ci (Lit l # r) s =
     (if lit_prefix ci l s
      then map_option (\<lambda>n. length l + n) (re_match ci r (drop (length l) s))
      else None)"
| "re_match ci (One cl # r) s =
     (case s of [] \<Rightarrow> None
      | x # xs \<Rightarrow> if cl x then map_option Suc (re_match ci r xs) else None)"
| "re_match ci (Star cl # r) s =
     greedy (\<lambda>j. re_match ci r (drop j s)) 0 (length (takeWhile cl s))"
| "re_match ci (Plus cl # r) s =
     greedy (\<lambda>j. re_match ci r (drop j s)) 1 (length (takeWhile cl s))"
| "re_match ci (Opt l # r) s =
     (case (if lit_prefix ci l s
            then map_option (\<lambda>n. length l + n) (re_match ci r (drop (length l) s))
            else None) of
        Some n \<Rightarrow> Some n
      | None \<Rightarrow> re_match ci r s)"
| "re_match ci (Eol # r) s =
     (if s = [] \<or> s = [CHR 0x0A] then re_match ci r s else None)"

fun re_search :: "(string \<Rightarrow> nat option) \<Rightarrow> string \<Rightarrow> (nat \<times> nat) option" where
  \<comment> \<open>\<^verbatim>\<open>re.search\<close>: start and length of the leftmost match\<close>
  "re_search m [] = map_option (Pair 0) (m [])"
| "re_search m (c # cs) =
     (case m (c # cs) of
        Some n \<Rightarrow> Some (0, n)
      | None \<Rightarrow> map_option (\<lambda>(i, n). (Suc i, n)) (re_search m cs))"

datatype tok = Txt char | Hit string

fun re_scan :: "(string \<Rightarrow> nat option) \<Rightarrow> string \<Rightarrow> tok list" where
  \<comment> \<open>the left-to-right pass of \<^verbatim>\<open>re.sub\<close> and \<^verbatim>\<open>re.findall\<close>: matches do not overlap\<close>
  "re_scan m [] = (case m [] of Some _ \<Rightarrow> [Hit []] | None \<Rightarrow> [])"
| "re_scan m (c # cs) =
     (case m (c # cs) of
        None \<Rightarrow> Txt c # re_scan m cs
      | Some 0 \<Rightarrow> Hit [] # Txt c # re_scan m cs
      | Some (Suc n) \<Rightarrow> Hit (take (Suc n) (c # cs)) # re_scan m (drop n cs))"

definition re_sub :: "(string \<Rightarrow> nat option) \<Rightarrow> (string \<Rightarrow> string) \<Rightarrow> string \<Rightarrow> string" where
  "re_sub m repl s = concat (map (\<lambda>t. case t of Txt c \<Rightarrow> [c] | Hit w \<Rightarrow> repl w) (re_scan m s))"

definition re_findall :: "(string \<Rightarrow> nat option) \<Rightarrow> string \<Rightarrow> string list" where
  "re_findall m s = concat (map (\<lambda>t. case t of Txt c \<Rightarrow> [] | Hit w \<Rightarrow> [w]) (re_scan m s))"

definition not_gt :: "char \<Rightarrow> bool" where
  "not_gt c = (c \<noteq> CHR ''>'')"

definition quote :: "char \<Rightarrow> bool" where
  \<comment> \<open>the class of the two quote characters\<close>
  "quote c = (c = CHR 0x27 \<or> c = CHR 0x22)"

definition not_quote :: "char \<Rightarrow> bool" where
  "not_quote c = (\<not> quote c)"

section \<open>scripts/fix\_canonical.py\<close>

datatype py_error = IndexError | ValueError

definition detect_base_url :: "string option \<Rightarrow> string \<Rightarrow> py_error + string" where
  \<comment> \<open>\<open>cname\<close> is the text of the file CNAME, \<open>None\<close> when there is no such file;
      \<open>repo\<close> is the value of GITHUB\_REPOSITORY\<close>
  "detect_base_url cname repo =
     (let ps = split1 ''/'' repo @ [[]];
          OWNER = ps ! 0;
          REPO_NAME = ps ! 1;
          by_repo =
            (if endswith REPO_NAME ''.github.io'' then ''https://'' @ REPO_NAME
             else if OWNER \<noteq> [] \<and> REPO_NAME \<noteq> [] then ''https://'' @ OWNER @ ''.github.io/'' @ REPO_NAME
             else [])
      in case cname of
           None \<Rightarrow> Inr by_repo
         | Some text \<Rightarrow>
             (case first_line (py_strip text) of
                None \<Rightarrow> Inl IndexError
              | Some l \<Rightarrow>
                  (let domain = py_strip l in
                   if domain \<noteq> [] then
                     (if \<not> startswith domain ''http'' then Inr (''https://'' @ domain)
                      else Inr domain)
                   else Inr by_repo)))"

definition as_posix :: "string list \<Rightarrow> string" where
  \<comment> \<open>a relative path is the list of its segments; the empty path prints as a dot\<close>
  "as_posix parts = (if parts = [] then ''.'' else join ''/'' parts)"

definition path_name :: "string list \<Rightarrow> string" where
  "path_name parts = (if parts = [] then [] else last parts)"

definition RE_SLASHES :: "atom list" where
  \<comment> \<open>a run of two or more slashes\<close>
  "RE_SLASHES = [Lit ''//'', Star (\<lambda>c. c = CHR ''/'')]"

definition build_canonical_for :: "string list \<Rightarrow> string \<Rightarrow> string" where
  \<comment> \<open>\<open>parts\<close> is the path of the file relative to ROOT\<close>
  "build_canonical_for parts base0 =
     (let base = py_rstrip ''/'' base0;
          rel = as_posix parts;
          name = py_lower (path_name parts)
      in if name = ''404.html'' \<or> startswith name ''yandex_'' \<or> startswith name ''google''
         then []
         else
           (let url_path = (if endswith rel ''index.html''
                            then ''/'' @ take (length rel - 10) rel
                            else ''/'' @ rel);
                url_path = re_sub (re_match False RE_SLASHES) (\<lambda>_. ''/'') url_path
            in base @ url_path))"

definition RE_CANONICAL :: "atom list" where
  "RE_CANONICAL =
     [Lit ''<link'', Plus not_gt, Lit ''rel='', One quote, Lit ''canonical'', One quote,
      Star not_gt, Lit ''>'']"

definition RE_HEAD_CLOSE :: "atom list" where
  "RE_HEAD_CLOSE = [Lit ''</head'', Star is_space, Lit ''>'']"

definition RE_ROBOTS_URL :: "atom list" where
  "RE_ROBOTS_URL =
     [Lit ''<meta'', Plus not_gt, Lit ''name='', One quote, Lit ''robots'', One quote,
      Plus not_gt, Lit ''content='', One quote, Lit ''http'', Opt ''s'', Lit ''://'',
      Plus not_quote, One quote, Star not_gt, Lit ''>'']"

definition canonical_tag :: "string \<Rightarrow> string" where
  \<open>canonical_tag canonical_url = ''<link rel="canonical" href="'' @ canonical_url @ ''">''\<close>

definition strip_canonical :: "string \<Rightarrow> string" where
  \<comment> \<open>step 1 of \<open>ensure_canonical\<close>\<close>
  "strip_canonical html = re_sub (re_match True RE_CANONICAL) (\<lambda>_. []) html"

definition insert_canonical :: "string \<Rightarrow> string \<Rightarrow> string \<times> bool" where
  \<comment> \<open>step 2 of \<open>ensure_canonical\<close>: the text and the flag \<open>inserted\<close>\<close>
  "insert_canonical html canonical_url =
     (case re_search (re_match True RE_HEAD_CLOSE) html of
        Some (pos, _) \<Rightarrow>
          (take pos html @ canonical_tag canonical_url @ [CHR 0x0A] @ drop pos html, True)
      | None \<Rightarrow> (html, False))"

definition fix_robots :: "string \<Rightarrow> string" where
  \<comment> \<open>step 3 of \<open>ensure_canonical\<close>\<close>
  \<open>fix_robots html =
     re_sub (re_match True RE_ROBOTS_URL) (\<lambda>_. ''<meta name="robots" content="index, follow">'') html\<close>

definition ensure_canonical :: "string \<Rightarrow> string \<Rightarrow> string" where
  "ensure_canonical html canonical_url =
     (let (html2, inserted) = insert_canonical (strip_canonical html) canonical_url;
          html3 = fix_robots html2
      in if \<not> inserted then canonical_tag canonical_url @ [CHR 0x0A] @ html3 else html3)"

type_synonym datetime = "nat \<times> nat \<times> nat \<times> nat \<times> nat \<times> nat"
  \<comment> \<open>year, month, day, hour, minute, second in UTC; compared field by field\<close>

record site_file =
  parts :: "string list"     \<comment> \<open>the segments of the path relative to the root of the tree\<close>
  utf8 :: "string option"    \<comment> \<open>the text, \<open>None\<close> when the file cannot be read as UTF-8\<close>
  lossy :: string            \<comment> \<open>the text read with undecodable bytes dropped\<close>
  git_time :: "datetime option"  \<comment> \<open>the time of the last commit of the file, if any\<close>
  mtime :: datetime

definition rglob :: "string \<Rightarrow> site_file list \<Rightarrow> site_file list" where
  \<comment> \<open>\<^verbatim>\<open>root.rglob("*" + ext)\<close> over the files of the tree, in filesystem order\<close>
  "rglob ext files = filter (\<lambda>f. endswith (path_name (parts f)) ext) files"

datatype failure =
    SystemExit_no_base_url   \<comment> \<open>\<^verbatim>\<open>SystemExit\<close> with the message that BASE\_URL could not be determined\<close>
  | SystemExit_no_root       \<comment> \<open>\<^verbatim>\<open>SystemExit\<close> with the message that SITE\_ROOT was not found\<close>
  | Uncaught py_error

fun exit_status :: "failure option \<Rightarrow> nat" where
  \<comment> \<open>\<^verbatim>\<open>SystemExit\<close> with a message prints it and ends the process with status 1, as an
      uncaught exception does\<close>
  "exit_status None = 0"
| "exit_status (Some e) = 1"

datatype event = Read "string list" | Write "string list" string | Unlink "string list"

record fix_env =
  BASE_URL_env :: string          \<comment> \<open>the value of BASE\_URL, empty when unset\<close>
  CNAME_file :: "string option"
  GITHUB_REPOSITORY :: string
  ROOT_exists :: bool

record fix_state =
  events :: "event list"
  changed_files :: nat
  skipped_files :: nat

definition fix_file :: "string \<Rightarrow> fix_state \<Rightarrow> site_file \<Rightarrow> fix_state" where
  \<comment> \<open>the body of the loop of \<open>main\<close>\<close>
  "fix_file base st p =
     (let st = st\<lparr>events := events st @ [Read (parts p)]\<rparr> in
      case utf8 p of
        None \<Rightarrow> st\<lparr>skipped_files := skipped_files st + 1\<rparr>
      | Some html \<Rightarrow>
          (let can_url = build_canonical_for (parts p) base in
           if can_url = [] then st
           else
             (let new_html = ensure_canonical html can_url in
              if new_html \<noteq> html
              then st\<lparr>events := events st @ [Write (parts p) new_html],
                      changed_files := changed_files st + 1\<rparr>
              else st)))"

definition fix_main :: "fix_env \<Rightarrow> site_file list \<Rightarrow> failure option \<times> fix_state" where
  \<comment> \<open>how the run ends (\<open>None\<close>: normally) and what it did to the files until then\<close>
  "fix_main env files =
     (let BASE_URL = py_strip (BASE_URL_env env);
          st0 = \<lparr>events = [], changed_files = 0, skipped_files = 0\<rparr>
      in case (if BASE_URL \<noteq> [] then Inr BASE_URL
               else detect_base_url (CNAME_file env) (GITHUB_REPOSITORY env)) of
           Inl e \<Rightarrow> (Some (Uncaught e), st0)
         | Inr base \<Rightarrow>
             if base = [] then (Some SystemExit_no_base_url, st0)
             else if \<not> ROOT_exists env then (Some SystemExit_no_root, st0)
             else (None, foldl (fix_file base) st0 (rglob ''.html'' files)))"

section \<open>tools/generate\_pages.py\<close>

definition detect_base_url_pages :: "string option \<Rightarrow> string \<Rightarrow> string \<Rightarrow> py_error + string" where
  \<comment> \<open>\<open>cname\<close> is the text of CNAME, \<open>site_domain\<close> and \<open>repo\<close> the values of
      SITE\_DOMAIN and GITHUB\_REPOSITORY\<close>
  "detect_base_url_pages cname site_domain repo =
     (let env_domain = py_rstrip ''/'' (py_strip site_domain);
          rest =
            (if startswith env_domain ''http'' then env_domain
             else if py_in ''/'' repo then
               (let ps = split1 ''/'' repo; owner = ps ! 0; name = ps ! 1 in
                if endswith name ''.github.io'' then py_rstrip ''/'' (''https://'' @ name)
                else py_rstrip ''/'' (''https://'' @ owner @ ''.github.io/'' @ name))
             else ''https://dostup-world.github.io'')
      in case cname of
           None \<Rightarrow> Inr rest
         | Some text \<Rightarrow>
             (case first_line (py_strip text) of
                None \<Rightarrow> Inl IndexError
              | Some l \<Rightarrow>
                  (let host = py_strip l in
                   if host \<noteq> [] then Inr (py_rstrip ''/'' (''https://'' @ host))
                   else Inr rest)))"

section \<open>tools/inject\_metrika.py\<close>

definition TARGET_ID :: string where
  "TARGET_ID = ''103602117''"

definition sq :: string where
  "sq = [CHR 0x27]"

definition SNIPPET :: string where
  \<open>SNIPPET = concat (map (\<lambda>l. l @ [CHR 0x0A])
    [''<!-- Yandex.Metrika counter -->'',
     ''<script type="text/javascript">'',
     ''    (function(m,e,t,r,i,k,a){'',
     ''        m[i]=m[i]||function(){(m[i].a=m[i].a||[]).push(arguments)};'',
     ''        m[i].l=1*new Date();'',
     ''        for (var j = 0; j < document.scripts.length; j++) {if (document.scripts[j].src === r) { return; }}'',
     ''        k=e.createElement(t),a=e.getElementsByTagName(t)[0],k.async=1,k.src=r,a.parentNode.insertBefore(k,a)'',
     ''    })(window, document,'' @ sq @ ''script'' @ sq @ '','' @ sq @ ''https://mc.yandex.ru/metrika/tag.js?id=103602117'' @ sq @ '', '' @ sq @ ''ym'' @ sq @ '');'',
     [],
     ''    ym(103602117, '' @ sq @ ''init'' @ sq @ '', {ssr:true, webvisor:true, clickmap:true, ecommerce:"dataLayer", accurateTrackBounce:true, trackLinks:true});'',
     ''</script>'',
     ''<noscript><div><img src="https://mc.yandex.ru/watch/103602117" style="position:absolute; left:-9999px;" alt="" /></div></noscript>'',
     ''<!-- /Yandex.Metrika counter -->''])\<close>

definition TAG_JS_PREFIX :: string where
  "TAG_JS_PREFIX = ''https://mc.yandex.ru/metrika/tag.js?id=''"

definition WATCH_PREFIX :: string where
  "WATCH_PREFIX = ''https://mc.yandex.ru/watch/''"

definition RE_TAG_JS :: "atom list" where
  "RE_TAG_JS = [Lit TAG_JS_PREFIX, Plus is_digit]"

definition RE_WATCH :: "atom list" where
  "RE_WATCH = [Lit WATCH_PREFIX, Plus is_digit]"

definition RE_YM_INIT :: "atom list" where
  "RE_YM_INIT =
     [Lit ''ym('', Star is_space, Plus is_digit, Star is_space, Lit '','', Star is_space,
      Lit (sq @ ''init'' @ sq)]"

definition RE_YM_TARGET :: "atom list" where
  \<comment> \<open>the pattern that \<open>has_target_id\<close> builds from TARGET\_ID\<close>
  "RE_YM_TARGET =
     [Lit ''ym('', Star is_space, Lit TARGET_ID, Star is_space, Lit '','', Star is_space,
      Lit (sq @ ''init'' @ sq)]"

definition has_target_id :: "string \<Rightarrow> bool" where
  "has_target_id text =
     (py_in (''metrika/tag.js?id='' @ TARGET_ID) text
      \<or> py_in (''watch/'' @ TARGET_ID) text
      \<or> re_search (re_match False RE_YM_TARGET) text \<noteq> None)"

fun sub_toks :: "(string \<Rightarrow> 's \<Rightarrow> string \<times> 's) \<Rightarrow> tok list \<Rightarrow> 's \<Rightarrow> string \<times> 's" where
  \<comment> \<open>\<^verbatim>\<open>re.sub\<close> with a callback that updates a variable of the enclosing function\<close>
  "sub_toks f [] st = ([], st)"
| "sub_toks f (Txt c # ts) st = (let (out, st') = sub_toks f ts st in (c # out, st'))"
| "sub_toks f (Hit w # ts) st =
     (let (r, st1) = f w st; (out, st2) = sub_toks f ts st1 in (r @ out, st2))"

definition re_sub_st ::
  "(string \<Rightarrow> nat option) \<Rightarrow> (string \<Rightarrow> 's \<Rightarrow> string \<times> 's) \<Rightarrow> string \<Rightarrow> 's \<Rightarrow> string \<times> 's" where
  "re_sub_st m f s st = sub_toks f (re_scan m s) st"

definition repl_tag :: "string \<Rightarrow> bool \<Rightarrow> string \<times> bool" where
  \<comment> \<open>the match \<open>m\<close> and the variable \<open>changed\<close>; group 1 is what follows the prefix\<close>
  "repl_tag m changed =
     (let old = drop (length TAG_JS_PREFIX) m in
      if old \<noteq> TARGET_ID then (py_replace old TARGET_ID m, True) else (m, changed))"

definition repl_watch :: "string \<Rightarrow> bool \<Rightarrow> string \<times> bool" where
  "repl_watch m changed =
     (let old = drop (length WATCH_PREFIX) m in
      if old \<noteq> TARGET_ID then (py_replace old TARGET_ID m, True) else (m, changed))"

definition replace_other_id :: "string \<Rightarrow> string \<times> bool" where
  \<comment> \<open>the third substitution uses a callback that leaves \<open>changed\<close> alone\<close>
  "replace_other_id text =
     (let (text_new, changed) = re_sub_st (re_match False RE_TAG_JS) repl_tag text False;
          (text_new, changed) = re_sub_st (re_match False RE_WATCH) repl_watch text_new changed;
          text_new = re_sub (re_match False RE_YM_INIT)
                       (\<lambda>m. ''ym('' @ TARGET_ID @ '', '' @ sq @ ''init'' @ sq) text_new
      in (text_new, changed))"

definition inject_at :: "string \<Rightarrow> string \<Rightarrow> string \<times> bool" where
  \<comment> \<open>the body of \<open>inject\<close> after its first line; \<open>lower\<close> is \<^verbatim>\<open>text.lower()\<close>\<close>
  "inject_at lower text =
     (let head_idx = py_rfind ''</head>'' lower;
          body_idx = py_rfind ''</body>'' lower;
          insert_at = (case head_idx of Some i \<Rightarrow> Some i | None \<Rightarrow> body_idx)
      in case insert_at of
           Some i \<Rightarrow> (take i text @ [CHR 0x0A] @ SNIPPET @ [CHR 0x0A] @ drop i text, True)
         | None \<Rightarrow> (text @ [CHR 0x0A] @ SNIPPET @ [CHR 0x0A], True))"

definition inject :: "string \<Rightarrow> string \<times> bool" where
  "inject text = (let lower = py_lower text in inject_at lower text)"

datatype kind = Update | Add

record metrika_state =
  added :: nat
  updated :: nat
  skipped :: nat
  touched :: "(kind \<times> string list) list"
  written :: "(string list \<times> string) list"

definition read_text_ignore :: "site_file \<Rightarrow> string" where
  \<comment> \<open>read as UTF-8 and, when that raises, again with the errors ignored\<close>
  "read_text_ignore p = (case utf8 p of Some t \<Rightarrow> t | None \<Rightarrow> lossy p)"

definition metrika_file :: "bool \<Rightarrow> metrika_state \<Rightarrow> site_file \<Rightarrow> metrika_state" where
  \<comment> \<open>the body of the loop of \<open>main\<close>\<close>
  "metrika_file dry_run st p =
     (let text = read_text_ignore p in
      if has_target_id text then st\<lparr>skipped := skipped st + 1\<rparr>
      else
        (let (text2, changed) = replace_other_id text in
         if changed
         then st\<lparr>updated := updated st + 1,
                 touched := touched st @ [(Update, parts p)],
                 written := (if \<not> dry_run then written st @ [(parts p, text2)] else written st)\<rparr>
         else
           (let (text3, injected) = inject text in
            if injected
            then st\<lparr>added := added st + 1,
                    touched := touched st @ [(Add, parts p)],
                    written := (if \<not> dry_run then written st @ [(parts p, text3)] else written st)\<rparr>
            else st)))"

definition metrika_files :: "string list \<Rightarrow> site_file list \<Rightarrow> site_file list" where
  \<comment> \<open>the list \<open>files\<close> of \<open>main\<close>; \<open>root\<close> holds the segments of the argument \<^verbatim>\<open>--root\<close>\<close>
  "metrika_files root files =
     filter (\<lambda>p. ''node_modules'' \<notin> set (root @ parts p) \<and> ''.git'' \<notin> set (root @ parts p))
       (rglob ''.html'' files @ rglob ''.htm'' files)"

definition metrika_main :: "bool \<Rightarrow> string list \<Rightarrow> site_file list \<Rightarrow> metrika_state" where
  "metrika_main dry_run root files =
     foldl (metrika_file dry_run)
       \<lparr>added = 0, updated = 0, skipped = 0, touched = [], written = []\<rparr>
       (metrika_files root files)"

section \<open>tools/generate\_sitemap.py\<close>

definition EXCLUDE_DIRS :: "string list" where
  "EXCLUDE_DIRS =
     [''.git'', ''.github'', ''tools'', ''assets'', ''images'', ''img'', ''fonts'',
      ''css'', ''js'', ''vendor'', ''node_modules'']"

fun re_alts :: "bool \<Rightarrow> atom list list \<Rightarrow> string \<Rightarrow> nat option" where
  \<comment> \<open>alternatives are tried from left to right\<close>
  "re_alts ci [] s = None"
| "re_alts ci (a # as) s = (case re_match ci a s of Some n \<Rightarrow> Some n | None \<Rightarrow> re_alts ci as s)"

definition EXCLUDE_FILES_RE :: "atom list list" where
  "EXCLUDE_FILES_RE =
     [[Lit ''404.html'', Eol],
      [Lit ''CNAME'', Eol],
      [Lit ''sitemap'', Opt ''-index'', Lit ''.xml'', Eol],
      [Lit ''rss.xml'', Eol],
      [Lit ''feed.xml'', Eol],
      [Lit ''atom.xml'', Eol],
      [Lit ''google'', Plus is_alnum, Lit ''.html'', Eol],
      [Lit ''yandex_'', Plus is_alnum, Lit ''.html'', Eol]]"

definition digit :: "nat \<Rightarrow> char" where
  "digit n = ''0123456789'' ! n"

function dec :: "nat \<Rightarrow> string" where
  "dec n = (if n < 10 then [digit n] else dec (n div 10) @ [digit (n mod 10)])"
  by pat_completeness auto
termination
  by (relation "measure id") auto

declare dec.simps [simp del]

definition zfill :: "nat \<Rightarrow> string \<Rightarrow> string" where
  "zfill k s = replicate (k - length s) (CHR ''0'') @ s"

definition file_lastmod :: "site_file \<Rightarrow> datetime" where
  "file_lastmod p = (case git_time p of Some dt \<Rightarrow> dt | None \<Rightarrow> mtime p)"

definition fmt_w3c :: "datetime \<Rightarrow> string" where
  "fmt_w3c dt = (case dt of (y, mo, d, h, mi, sec) \<Rightarrow>
     zfill 4 (dec y) @ ''-'' @ zfill 2 (dec mo) @ ''-'' @ zfill 2 (dec d) @ ''T'' @
     zfill 2 (dec h) @ '':'' @ zfill 2 (dec mi) @ '':'' @ zfill 2 (dec sec) @ ''Z'')"

definition escape :: "string \<Rightarrow> string" where
  \<comment> \<open>\<^verbatim>\<open>xml.sax.saxutils.escape\<close>\<close>
  "escape s = py_replace ''>'' ''&gt;'' (py_replace ''<'' ''&lt;'' (py_replace ''&'' ''&amp;'' s))"

definition to_url_path :: "string list \<Rightarrow> string" where
  \<comment> \<open>the first part of \<open>to_url\<close>, the same in both generators\<close>
  "to_url_path rel =
     (let rel_posix = as_posix rel in
      if endswith rel_posix ''index.html''
      then ''/'' @ py_rstrip ''/'' (as_posix (butlast rel)) @ ''/''
      else ''/'' @ rel_posix)"

definition to_url :: "string \<Rightarrow> string list \<Rightarrow> string" where
  \<comment> \<open>\<open>BASE_URL\<close> is the constant of the module, read from the environment\<close>
  "to_url BASE_URL rel =
     escape (py_replace '':/'' ''://'' (py_replace ''//'' ''/'' (BASE_URL @ to_url_path rel)))"

record sitemap_item =
  loc :: string
  lastmod :: string
  dt :: datetime

definition sort_reverse :: "('a \<Rightarrow> 'k::linorder) \<Rightarrow> 'a list \<Rightarrow> 'a list" where
  \<comment> \<open>\<^verbatim>\<open>xs.sort(key=..., reverse=True)\<close>: descending, equal keys keep their order\<close>
  "sort_reverse key xs = rev (sort_key key (rev xs))"

definition sitemap_keep :: "site_file \<Rightarrow> bool" where
  \<comment> \<open>the two tests of the loop of \<open>collect\<close>\<close>
  "sitemap_keep p =
     (\<not> list_ex (\<lambda>x. x \<in> set EXCLUDE_DIRS) (parts p)
      \<and> re_alts True EXCLUDE_FILES_RE (path_name (parts p)) = None)"

definition collect :: "string \<Rightarrow> site_file list \<Rightarrow> sitemap_item list" where
  "collect BASE_URL files =
     sort_reverse dt
       (map (\<lambda>p. \<lparr>loc = to_url BASE_URL (parts p),
                   lastmod = fmt_w3c (file_lastmod p),
                   dt = file_lastmod p\<rparr>)
          (filter sitemap_keep (rglob ''.html'' files)))"

definition XML_HEAD :: string where
  \<open>XML_HEAD = ''<?xml version="1.0" encoding="UTF-8"?>'' @ [CHR 0x0A]\<close>

definition sitemap_text :: "sitemap_item list \<Rightarrow> string" where
  \<comment> \<open>the text that \<open>write_sitemap\<close> writes\<close>
  \<open>sitemap_text items =
     (let head = XML_HEAD @ ''<urlset xmlns="http://www.sitemaps.org/schemas/sitemap/0.9">'' @ [CHR 0x0A];
          tail = ''</urlset>'' @ [CHR 0x0A]
      in join [CHR 0x0A]
           ([head] @
            concat (map (\<lambda>it. [''  <url>'',
                                ''    <loc>'' @ loc it @ ''</loc>'',
                                ''    <lastmod>'' @ lastmod it @ ''</lastmod>'',
                                ''  </url>'']) items) @
            [tail]))\<close>

definition sitemap_index_text :: "string \<Rightarrow> datetime \<Rightarrow> string list \<Rightarrow> string" where
  \<comment> \<open>the text that \<open>write_sitemap_index\<close> writes; \<open>now_dt\<close> is the clock at that moment\<close>
  \<open>sitemap_index_text BASE_URL now_dt ps =
     (let head = XML_HEAD @ ''<sitemapindex xmlns="http://www.sitemaps.org/schemas/sitemap/0.9">'' @ [CHR 0x0A];
          tail = ''</sitemapindex>'' @ [CHR 0x0A];
          now = fmt_w3c now_dt
      in join [CHR 0x0A]
           ([head] @
            concat (map (\<lambda>p. [''  <sitemap>'',
                               ''    <loc>'' @ escape (BASE_URL @ ''/'' @ p) @ ''</loc>'',
                               ''    <lastmod>'' @ now @ ''</lastmod>'',
                               ''  </sitemap>'']) ps) @
            [tail]))\<close>

definition ensure_robots :: "string \<Rightarrow> string option \<Rightarrow> event list" where
  \<comment> \<open>\<open>robots\<close> is the text of robots.txt, \<open>None\<close> when there is no such file\<close>
  "ensure_robots BASE_URL robots =
     (let line = ''Sitemap: '' @ BASE_URL @ ''/sitemap.xml'' @ [CHR 0x0A] in
      case robots of
        Some txt \<Rightarrow>
          if \<not> py_in ''Sitemap:'' txt
          then [Write [''robots.txt''] (rev (dropWhile is_space (rev txt)) @ [CHR 0x0A] @ line)]
          else []
      | None \<Rightarrow>
          [Write [''robots.txt''] (''User-agent: *'' @ [CHR 0x0A] @ ''Allow: /'' @ [CHR 0x0A] @ line)])"

function chunks :: "nat \<Rightarrow> nat \<Rightarrow> 'a list \<Rightarrow> (string \<times> 'a list) list" where
  \<comment> \<open>the loop \<^verbatim>\<open>for i in range(0, len(items), MAX_URLS)\<close> from \<open>i\<close> on, for a positive step\<close>
  "chunks cap i items =
     (if cap = 0 \<or> length items \<le> i then []
      else (''sitemap-'' @ dec (i div cap + 1) @ ''.xml'', take cap (drop i items))
             # chunks cap (i + cap) items)"
  by pat_completeness auto
termination
  by (relation "measure (\<lambda>(cap, i, items). length items - i)") auto

declare chunks.simps [simp del]

record sitemap_env =
  BASE_URL :: string             \<comment> \<open>the constant of the module, trailing slashes removed\<close>
  MAX_URLS :: int
  MAKE_ROBOTS :: bool
  index_exists :: bool           \<comment> \<open>whether sitemap\_index.xml is there\<close>
  robots_txt :: "string option"
  now_index :: datetime          \<comment> \<open>the clock when the index is written\<close>
  now_main :: datetime           \<comment> \<open>the clock when sitemap.xml is written\<close>

definition sitemap_emit :: "sitemap_env \<Rightarrow> sitemap_item list \<Rightarrow> py_error + event list" where
  \<comment> \<open>\<open>main\<close> after the call of \<open>collect\<close>\<close>
  \<open>sitemap_emit env items =
     (let robots = (if MAKE_ROBOTS env then ensure_robots (BASE_URL env) (robots_txt env) else []) in
      if int (length items) \<le> MAX_URLS env
      then Inr ([Write [''sitemap.xml''] (sitemap_text items)] @
                (if index_exists env then [Unlink [''sitemap_index.xml'']] else []) @ robots)
      else if MAX_URLS env = 0 then Inl ValueError
      else
        (let cs = (if MAX_URLS env < 0 then [] else chunks (nat (MAX_URLS env)) 0 items) in
         Inr (map (\<lambda>(name, chunk). Write [name] (sitemap_text chunk)) cs @
              [Write [''sitemap_index.xml'']
                 (sitemap_index_text (BASE_URL env) (now_index env) (map fst cs))] @
              [Write [''sitemap.xml'']
                 (XML_HEAD @
                  ''<sitemapindex xmlns="http://www.sitemaps.org/schemas/sitemap/0.9">'' @ [CHR 0x0A] @
                  ''  <sitemap>'' @ [CHR 0x0A] @ ''    <loc>'' @
                  escape (BASE_URL env @ ''/sitemap_index.xml'') @ ''</loc>'' @ [CHR 0x0A] @
                  ''    <lastmod>'' @ fmt_w3c (now_main env) @ ''</lastmod>'' @ [CHR 0x0A] @
                  ''  </sitemap>'' @ [CHR 0x0A] @
                  ''</sitemapindex>'' @ [CHR 0x0A])] @
              robots)))\<close>

definition sitemap_main :: "sitemap_env \<Rightarrow> site_file list \<Rightarrow> py_error + event list" where
  "sitemap_main env files = sitemap_emit env (collect (BASE_URL env) files)"

section \<open>tools/generate\_rss.py\<close>

definition EXCLUDE_FILES_REGEX :: "atom list list" where
  "EXCLUDE_FILES_REGEX =
     [[Lit ''404.html'', Eol],
      [Lit ''CNAME'', Eol],
      [Lit ''sitemap.xml'', Eol],
      [Lit ''rss.xml'', Eol],
      [Lit ''feed.xml'', Eol],
      [Lit ''atom.xml'', Eol],
      [Lit ''google'', Plus is_alnum, Lit ''.html'', Eol],
      [Lit ''yandex_'', Plus is_alnum, Lit ''.html'', Eol]]"

definition to_url_rss :: "string \<Rightarrow> string list \<Rightarrow> string" where
  "to_url_rss base_url rel =
     py_replace '':/'' ''://'' (py_replace ''//'' ''/'' (base_url @ to_url_path rel))"

record rss_item =
  title :: string
  link :: string
  guid :: string
  pubDate :: string
  dt_sort :: datetime
  description :: string

record rss_env =
  RSS_BASE_URL :: string
  MAX_ITEMS :: int
  get_title :: "string \<Rightarrow> string"          \<comment> \<open>title of a page, empty when it has none\<close>
  get_description :: "string \<Rightarrow> string"
  to_rfc2822 :: "datetime \<Rightarrow> string"

definition rss_keep :: "site_file \<Rightarrow> bool" where
  \<comment> \<open>the two tests on the path in the loop of \<open>collect_items\<close>\<close>
  "rss_keep p =
     (\<not> list_ex (\<lambda>x. x \<in> set EXCLUDE_DIRS) (parts p)
      \<and> re_alts True EXCLUDE_FILES_REGEX (path_name (parts p)) = None)"

definition rss_entry :: "rss_env \<Rightarrow> site_file \<Rightarrow> rss_item list" where
  \<comment> \<open>what the body of the loop appends for a path that passed the tests\<close>
  "rss_entry env p =
     (let html_text = lossy p;
          t = get_title env html_text
      in if t = [] then []
         else
           (let desc = get_description env html_text;
                l = to_url_rss (RSS_BASE_URL env) (parts p);
                d = file_lastmod p
            in [\<lparr>title = t, link = l, guid = l, pubDate = to_rfc2822 env d, dt_sort = d,
                 description = (if desc \<noteq> [] then desc else t)\<rparr>]))"

definition collect_items :: "rss_env \<Rightarrow> site_file list \<Rightarrow> rss_item list" where
  "collect_items env files =
     (let items = sort_reverse dt_sort
                    (concat (map (rss_entry env) (filter rss_keep (rglob ''.html'' files))))
      in if MAX_ITEMS env \<noteq> 0 \<and> MAX_ITEMS env > 0 then take (nat (MAX_ITEMS env)) items
         else items)"

section \<open>Documents used below\<close>

definition doc_ym_only :: string where
  \<comment> \<open>a page whose only trace of a counter is the call of \<^verbatim>\<open>ym\<close> with another identifier\<close>
  \<open>doc_ym_only = ''<script>ym(999, '' @ sq @ ''init'' @ sq @ '', {});</script>''\<close>

definition doc_mixed :: string where
  \<comment> \<open>the script address carries the target identifier, the image address another one\<close>
  \<open>doc_mixed = ''<script src="https://mc.yandex.ru/metrika/tag.js?id=103602117"></script>'' @
                 ''<img src="https://mc.yandex.ru/watch/999">''\<close>

definition doc_two_heads :: string where
  \<comment> \<open>the text of a closing head tag occurs in a script before the closing tag itself\<close>
  \<open>doc_two_heads = ''<head><script>var s = "</head>";</script></head><body></body>''\<close>

definition doc_open_meta :: string where
  \<comment> \<open>a robots meta whose content is an address and whose tag is not closed\<close>
  \<open>doc_open_meta = ''<head><meta name="robots" content="http://x" </head><body></body>''\<close>

definition doc_nested :: string where
  \<comment> \<open>a canonical link written inside the name of another link tag\<close>
  \<open>doc_nested = ''<head><li<link rel="canonical">nk rel="canonical"></head>''\<close>

definition page :: "string list \<Rightarrow> string \<Rightarrow> site_file" where
  \<comment> \<open>a readable file with the given path and text\<close>
  "page ps t = \<lparr>parts = ps, utf8 = Some t, lossy = t, git_time = None, mtime = (2025, 1, 1, 0, 0, 0)\<rparr>"

definition page_404 :: site_file where
  "page_404 = page [''404.html''] ''<head><title>Not found</title></head>''"

definition page_verification :: site_file where
  "page_verification = page [''google1a2b3c4d.html''] ''google-site-verification: google1a2b3c4d.html''"

definition page_about :: site_file where
  "page_about = page [''about.html''] ''<head><title>About</title></head>''"

definition rss_env0 :: rss_env where
  \<comment> \<open>a feed without a limit; every page has the title and the description given here\<close>
  "rss_env0 =
     \<lparr>RSS_BASE_URL = ''https://acme.github.io'', MAX_ITEMS = 0,
      get_title = (\<lambda>t. ''A page''), get_description = (\<lambda>t. []),
      to_rfc2822 = (\<lambda>t. ''Wed, 01 Jan 2025 00:00:00 +0000'')\<rparr>"

definition metrika_state0 :: metrika_state where
  "metrika_state0 = \<lparr>added = 0, updated = 0, skipped = 0, touched = [], written = []\<rparr>"

definition fix_state0 :: fix_state where
  "fix_state0 = \<lparr>events = [], changed_files = 0, skipped_files = 0\<rparr>"

definition valid_datetime :: "datetime \<Rightarrow> bool" where
  \<comment> \<open>the ranges of the fields of a \<^verbatim>\<open>datetime\<close> with a four-digit year\<close>
  "valid_datetime t = (case t of (y, mo, d, h, mi, sec) \<Rightarrow>
     1000 \<le> y \<and> y \<le> 9999 \<and> 1 \<le> mo \<and> mo \<le> 12 \<and> 1 \<le> d \<and> d \<le> 31 \<and> h \<le> 23 \<and> mi \<le> 59 \<and> sec \<le> 59)"

definition RE_W3C :: "atom list" where
  \<comment> \<open>the shape YYYY-MM-DDThh:mm:ssZ of a W3C date and time in UTC\<close>
  "RE_W3C =
     [One is_digit, One is_digit, One is_digit, One is_digit, Lit ''-'',
      One is_digit, One is_digit, Lit ''-'', One is_digit, One is_digit, Lit ''T'',
      One is_digit, One is_digit, Lit '':'', One is_digit, One is_digit, Lit '':'',
      One is_digit, One is_digit, Lit ''Z'']"

definition w3c_valid :: "string \<Rightarrow> bool" where
  "w3c_valid s = (re_match False RE_W3C s = Some (length s))"

definition many_pages :: "nat \<Rightarrow> site_file list" where
  \<comment> \<open>the pages p0.html, p1.html, ... at the root of the tree\<close>
  "many_pages n = map (\<lambda>k. page [CHR ''p'' # dec k @ ''.html''] []) [0..<n]"

definition sitemap_env0 :: sitemap_env where
  "sitemap_env0 =
     \<lparr>BASE_URL = ''https://acme.github.io'', MAX_URLS = 49000, MAKE_ROBOTS = False,
      index_exists = False, robots_txt = None,
      now_index = (2025, 6, 1, 12, 0, 0), now_main = (2025, 6, 1, 12, 0, 1)\<rparr>"

section \<open>The texts a pattern describes\<close>

text \<open>
  \<open>accepts ci r w rest\<close> says that the text \<open>w\<close>, followed by \<open>rest\<close>, is described by
  the pattern \<open>r\<close>; it is the specification of \<open>re_match\<close>, which finds one such \<open>w\<close> at
  the start of a text.
\<close>

definition lit_eq :: "bool \<Rightarrow> string \<Rightarrow> string \<Rightarrow> bool" where
  "lit_eq ci l u = (length u = length l \<and> lit_prefix ci l u)"

fun accepts :: "bool \<Rightarrow> atom list \<Rightarrow> string \<Rightarrow> string \<Rightarrow> bool" where
  "accepts ci [] w rest = (w = [])"
| "accepts ci (Lit l # r) w rest = (\<exists>u v. w = u @ v \<and> lit_eq ci l u \<and> accepts ci r v rest)"
| "accepts ci (One cl # r) w rest = (\<exists>x v. w = x # v \<and> cl x \<and> accepts ci r v rest)"
| "accepts ci (Star cl # r) w rest = (\<exists>u v. w = u @ v \<and> (\<forall>x\<in>set u. cl x) \<and> accepts ci r v rest)"
| "accepts ci (Plus cl # r) w rest =
     (\<exists>u v. w = u @ v \<and> u \<noteq> [] \<and> (\<forall>x\<in>set u. cl x) \<and> accepts ci r v rest)"
| "accepts ci (Opt l # r) w rest =
     ((\<exists>u v. w = u @ v \<and> lit_eq ci l u \<and> accepts ci r v rest) \<or> accepts ci r w rest)"
| "accepts ci (Eol # r) w rest =
     ((w @ rest = [] \<or> w @ rest = [CHR 0x0A]) \<and> accepts ci r w rest)"

section \<open>Site identity\<close>

lemma py_find_sep: "c \<notin> set xs \<Longrightarrow> py_find [c] (xs @ c # ys) = Some (length xs)"
  by (induction xs) auto

lemma split1_owner_name:
  "CHR ''/'' \<notin> set owner \<Longrightarrow> split1 ''/'' (owner @ CHR ''/'' # name) = [owner, name]"
  by (simp add: split1_def py_find_sep)

lemma py_in_sep: "py_in [c] (xs @ c # ys)"
  by (induction xs) auto

lemma py_rstrip_last: "s \<noteq> [] \<Longrightarrow> last s \<notin> set chars \<Longrightarrow> py_rstrip chars s = s"
  by (cases s rule: rev_cases) (auto simp: py_rstrip_def)

text \<open>
  Claim C5. With no override and no CNAME file, a repository identifier \<open>owner/name\<close>
  resolves to \<open>https://name\<close> when \<open>name\<close> ends with \<open>.github.io\<close> and to
  \<open>https://owner.github.io/name\<close> otherwise, in the canonical-link script and in the
  page generator alike.
\<close>

theorem C5_fallback_chain:
  assumes "CHR ''/'' \<notin> set owner" and "owner \<noteq> []" and "name \<noteq> []" and "last name \<noteq> CHR ''/''"
  shows "detect_base_url None (owner @ ''/'' @ name) =
           Inr (if endswith name ''.github.io'' then ''https://'' @ name
                else ''https://'' @ owner @ ''.github.io/'' @ name)
         \<and> detect_base_url_pages None [] (owner @ ''/'' @ name) =
           Inr (if endswith name ''.github.io'' then ''https://'' @ name
                else ''https://'' @ owner @ ''.github.io/'' @ name)"
proof -
  have sp: "split1 ''/'' (owner @ CHR ''/'' # name) = [owner, name]"
    using assms(1) by (rule split1_owner_name)
  have a: "detect_base_url None (owner @ ''/'' @ name) =
           Inr (if endswith name ''.github.io'' then ''https://'' @ name
                else ''https://'' @ owner @ ''.github.io/'' @ name)"
    using assms(2,3) by (simp add: detect_base_url_def sp Let_def)
  have r1: "py_rstrip ''/'' (''https://'' @ name) = ''https://'' @ name"
    using assms(3,4) by (intro py_rstrip_last) auto
  have r2: "py_rstrip ''/'' (''https://'' @ owner @ ''.github.io/'' @ name)
              = ''https://'' @ owner @ ''.github.io/'' @ name"
    using assms(3,4) by (intro py_rstrip_last) auto
  have e: "py_rstrip ''/'' (py_strip []) = []"
    by (simp add: py_rstrip_def py_strip_def)
  have i: "py_in ''/'' (owner @ ''/'' @ name)"
    using py_in_sep [of "CHR ''/''" owner name] by simp
  have b: "detect_base_url_pages None [] (owner @ ''/'' @ name) =
           Inr (if endswith name ''.github.io'' then ''https://'' @ name
                else ''https://'' @ owner @ ''.github.io/'' @ name)"
    unfolding detect_base_url_pages_def Let_def e
    using r1 r2 i by (simp add: sp startswith_def)
  from a b show ?thesis by simp
qed

theorem C5_fallback_chain_witness:
  "CHR ''/'' \<notin> set ''acme'' \<and> ''acme'' \<noteq> [] \<and> ''acme.github.io'' \<noteq> [] \<and> ''widgets'' \<noteq> []
   \<and> last ''acme.github.io'' \<noteq> CHR ''/'' \<and> last ''widgets'' \<noteq> CHR ''/''
   \<and> detect_base_url None ''acme/acme.github.io'' = Inr ''https://acme.github.io''
   \<and> detect_base_url_pages None [] ''acme/acme.github.io'' = Inr ''https://acme.github.io''
   \<and> detect_base_url None ''acme/widgets'' = Inr ''https://acme.github.io/widgets''
   \<and> detect_base_url_pages None [] ''acme/widgets'' = Inr ''https://acme.github.io/widgets''"
  using C5_fallback_chain [of "''acme''" "''acme.github.io''"]
        C5_fallback_chain [of "''acme''" "''widgets''"]
  by (simp add: endswith_def)

text \<open>
  Claim C6. When BASE\_URL is empty, there is no CNAME file and the repository identifier
  yields no address, the canonical-link script ends with \<^verbatim>\<open>SystemExit\<close> and its message
  (exit status 1) before it has read or written any file.
\<close>

theorem C6_no_base_url_is_fatal:
  assumes "py_strip (BASE_URL_env env) = []"
    and "CNAME_file env = None"
    and "detect_base_url None (GITHUB_REPOSITORY env) = Inr []"
  shows "fix_main env files = (Some SystemExit_no_base_url, fix_state0)
         \<and> exit_status (fst (fix_main env files)) = 1
         \<and> events (snd (fix_main env files)) = []"
  using assms by (simp add: fix_main_def fix_state0_def)

theorem C6_no_base_url_is_fatal_witness:
  "py_strip (BASE_URL_env \<lparr>BASE_URL_env = [], CNAME_file = None, GITHUB_REPOSITORY = ''acme'', ROOT_exists = True\<rparr>) = []
   \<and> CNAME_file \<lparr>BASE_URL_env = [], CNAME_file = None, GITHUB_REPOSITORY = ''acme'', ROOT_exists = True\<rparr> = None
   \<and> detect_base_url None (GITHUB_REPOSITORY \<lparr>BASE_URL_env = [], CNAME_file = None, GITHUB_REPOSITORY = ''acme'', ROOT_exists = True\<rparr>) = Inr []
   \<and> fix_main \<lparr>BASE_URL_env = [], CNAME_file = None, GITHUB_REPOSITORY = ''acme'', ROOT_exists = True\<rparr>
        [page [''index.html''] ''<head></head>'']
      = (Some SystemExit_no_base_url, fix_state0)"
proof -
  have h1: "py_strip [] = []" by (simp add: py_strip_def)
  have h3: "detect_base_url None ''acme'' = Inr []" by code_simp
  show ?thesis
    using C6_no_base_url_is_fatal [of "\<lparr>BASE_URL_env = [], CNAME_file = None, GITHUB_REPOSITORY = ''acme'', ROOT_exists = True\<rparr>"
        "[page [''index.html''] ''<head></head>'']"] h1 h3
    by simp
qed

section \<open>Canonical addresses\<close>

text \<open>
  Claim C4. The canonicalizer should drop the file name only when the last segment of the
  path is \<open>index.html\<close>. The scripts test the suffix of the whole path instead: for
  \<open>foo/myindex.html\<close> the canonical-link script cuts the last ten characters and the
  sitemap generator returns the address of the directory.
\<close>

theorem C4_suffix_instead_of_segment:
  "build_canonical_for [''foo'', ''myindex.html''] ''https://acme.github.io''
     = ''https://acme.github.io/foo/my''
   \<and> to_url ''https://acme.github.io'' [''foo'', ''myindex.html''] = ''https://acme.github.io/foo/''
   \<and> build_canonical_for [''foo'', ''bar'', ''index.html''] ''https://acme.github.io''
     = ''https://acme.github.io/foo/bar/''"
  by code_simp

section \<open>Injection of the canonical link\<close>

text \<open>
  Claim C1. A second run of the canonical-link injection should return the text of the
  first run. It does not: the first run writes the tag and a line break, the second run
  removes the tag only, so each run adds one line break before the tag and the file is
  written again.
\<close>

theorem C1_second_run_changes_text:
  \<open>ensure_canonical ''<head></head>'' ''https://acme.github.io/''
     = ''<head><link rel="canonical" href="https://acme.github.io/">'' @ [CHR 0x0A] @ ''</head>''
   \<and> ensure_canonical (ensure_canonical ''<head></head>'' ''https://acme.github.io/'') ''https://acme.github.io/''
     = ''<head>'' @ [CHR 0x0A] @ ''<link rel="canonical" href="https://acme.github.io/">'' @ [CHR 0x0A] @ ''</head>''\<close>
  by code_simp

section \<open>Injection of the tracking snippet\<close>

text \<open>
  Claim C3. After injection or repair every occurrence of the identifier should be the
  target one. For a page whose only marker is the call of \<^verbatim>\<open>ym\<close> with another
  identifier, \<open>replace_other_id\<close> computes the repaired text but reports \<open>changed = False\<close>;
  the entry point then drops that text and appends the snippet to the original page, which
  keeps the call with the other identifier.
\<close>

theorem C3_ym_only_not_repaired:
  \<open>replace_other_id doc_ym_only
      = (''<script>ym(103602117, '' @ sq @ ''init'' @ sq @ '', {});</script>'', False)
   \<and> metrika_file False metrika_state0 (page [''a.html''] doc_ym_only)
      = \<lparr>added = 1, updated = 0, skipped = 0, touched = [(Add, [''a.html''])],
         written = [([''a.html''], doc_ym_only @ [CHR 0x0A] @ SNIPPET @ [CHR 0x0A])]\<rparr>
   \<and> py_in (''ym(999, '' @ sq @ ''init'' @ sq) (doc_ym_only @ [CHR 0x0A] @ SNIPPET @ [CHR 0x0A])\<close>
  by code_simp

lemma inject_injected: "snd (inject text) = True"
  by (simp add: inject_def inject_at_def Let_def split: option.splits)

lemma metrika_file_skipped:
  "skipped (metrika_file d st p) = skipped st + (if has_target_id (read_text_ignore p) then 1 else 0)"
  using inject_injected [of "read_text_ignore p"]
  by (auto simp: metrika_file_def Let_def split: prod.splits)

lemma metrika_file_written:
  "has_target_id (read_text_ignore p) \<Longrightarrow> written (metrika_file d st p) = written st"
  "fst ` set (written (metrika_file d st p)) \<subseteq> fst ` set (written st) \<union> {parts p}"
  by (auto simp: metrika_file_def Let_def split: prod.splits)

lemma metrika_file_touched:
  "has_target_id (read_text_ignore p) \<Longrightarrow> touched (metrika_file d st p) = touched st"
  "snd ` set (touched (metrika_file d st p)) \<subseteq> snd ` set (touched st) \<union> {parts p}"
  by (auto simp: metrika_file_def Let_def split: prod.splits)

lemma metrika_fold_skipped:
  "skipped (foldl (metrika_file d) st fs)
     = skipped st + length (filter (\<lambda>q. has_target_id (read_text_ignore q)) fs)"
  by (induction fs arbitrary: st) (simp_all add: metrika_file_skipped)

lemma metrika_fold_written:
  "fst ` set (written (foldl (metrika_file d) st fs))
     \<subseteq> fst ` set (written st) \<union> parts ` {q \<in> set fs. \<not> has_target_id (read_text_ignore q)}"
proof (induction fs arbitrary: st)
  case Nil
  then show ?case by simp
next
  case (Cons f fs)
  show ?case
  proof (cases "has_target_id (read_text_ignore f)")
    case True
    with Cons [of "metrika_file d st f"] show ?thesis
      by (auto simp: metrika_file_written(1))
  next
    case False
    then have e: "parts ` {q \<in> set (f # fs). \<not> has_target_id (read_text_ignore q)}
        = insert (parts f) (parts ` {q \<in> set fs. \<not> has_target_id (read_text_ignore q)})"
      by auto
    have "fst ` set (written (foldl (metrika_file d) (metrika_file d st f) fs))
        \<subseteq> fst ` set (written st) \<union> insert (parts f) (parts ` {q \<in> set fs. \<not> has_target_id (read_text_ignore q)})"
      using Cons [of "metrika_file d st f"] metrika_file_written(2) [of d st f] by blast
    then show ?thesis
      unfolding e by simp
  qed
qed

lemma metrika_fold_touched:
  "snd ` set (touched (foldl (metrika_file d) st fs))
     \<subseteq> snd ` set (touched st) \<union> parts ` {q \<in> set fs. \<not> has_target_id (read_text_ignore q)}"
proof (induction fs arbitrary: st)
  case Nil
  then show ?case by simp
next
  case (Cons f fs)
  show ?case
  proof (cases "has_target_id (read_text_ignore f)")
    case True
    with Cons [of "metrika_file d st f"] show ?thesis
      by (auto simp: metrika_file_touched(1))
  next
    case False
    then have e: "parts ` {q \<in> set (f # fs). \<not> has_target_id (read_text_ignore q)}
        = insert (parts f) (parts ` {q \<in> set fs. \<not> has_target_id (read_text_ignore q)})"
      by auto
    have "snd ` set (touched (foldl (metrika_file d) (metrika_file d st f) fs))
        \<subseteq> snd ` set (touched st) \<union> insert (parts f) (parts ` {q \<in> set fs. \<not> has_target_id (read_text_ignore q)})"
      using Cons [of "metrika_file d st f"] metrika_file_touched(2) [of d st f] by blast
    then show ?thesis
      unfolding e by simp
  qed
qed

lemma metrika_files_subset: "set (metrika_files root files) \<subseteq> set files"
  by (auto simp: metrika_files_def rglob_def)

text \<open>
  Claim C10. A page in which one marker carries the target identifier (the script address,
  the image address or the call of \<^verbatim>\<open>ym\<close>) is counted as skipped and is neither
  written nor listed as touched, whatever identifier its other markers carry.
\<close>

theorem C10_target_id_anywhere_is_skipped:
  assumes "distinct (map parts files)"
    and "p \<in> set (metrika_files root files)"
    and "has_target_id (read_text_ignore p)"
  shows "parts p \<notin> fst ` set (written (metrika_main dry_run root files))
         \<and> parts p \<notin> snd ` set (touched (metrika_main dry_run root files))
         \<and> skipped (metrika_main dry_run root files)
             = length (filter (\<lambda>q. has_target_id (read_text_ignore q)) (metrika_files root files))"
proof -
  have inj: "inj_on parts (set files)"
    using assms(1) by (simp add: distinct_map)
  have other: "parts p \<notin> parts ` {q \<in> set (metrika_files root files). \<not> has_target_id (read_text_ignore q)}"
  proof
    assume "parts p \<in> parts ` {q \<in> set (metrika_files root files). \<not> has_target_id (read_text_ignore q)}"
    then obtain q where q: "q \<in> set (metrika_files root files)" "\<not> has_target_id (read_text_ignore q)"
      "parts q = parts p" by auto
    from q(1) assms(2) metrika_files_subset have "q \<in> set files" "p \<in> set files" by auto
    with inj q(3) have "q = p" by (auto dest: inj_onD)
    with q(2) assms(3) show False by simp
  qed
  have w: "parts p \<notin> fst ` set (written (metrika_main dry_run root files))"
    using metrika_fold_written [of dry_run "\<lparr>added = 0, updated = 0, skipped = 0, touched = [], written = []\<rparr>"
        "metrika_files root files"] other
    by (auto simp: metrika_main_def)
  have t: "parts p \<notin> snd ` set (touched (metrika_main dry_run root files))"
    using metrika_fold_touched [of dry_run "\<lparr>added = 0, updated = 0, skipped = 0, touched = [], written = []\<rparr>"
        "metrika_files root files"] other
    by (auto simp: metrika_main_def)
  have s: "skipped (metrika_main dry_run root files)
             = length (filter (\<lambda>q. has_target_id (read_text_ignore q)) (metrika_files root files))"
    by (simp add: metrika_main_def metrika_fold_skipped)
  from w t s show ?thesis by simp
qed

lemma doc_mixed_facts:
  "has_target_id doc_mixed"
  "py_in ''https://mc.yandex.ru/watch/999'' doc_mixed"
  "metrika_files [] [page [''a.html''] doc_mixed] = [page [''a.html''] doc_mixed]"
  "metrika_main False [] [page [''a.html''] doc_mixed]
     = \<lparr>added = 0, updated = 0, skipped = 1, touched = [], written = []\<rparr>"
  by code_simp+

theorem C10_target_id_anywhere_is_skipped_witness:
  "distinct (map parts [page [''a.html''] doc_mixed])
   \<and> page [''a.html''] doc_mixed \<in> set (metrika_files [] [page [''a.html''] doc_mixed])
   \<and> has_target_id (read_text_ignore (page [''a.html''] doc_mixed))
   \<and> py_in ''https://mc.yandex.ru/watch/999'' doc_mixed
   \<and> parts (page [''a.html''] doc_mixed)
        \<notin> fst ` set (written (metrika_main False [] [page [''a.html''] doc_mixed]))
   \<and> skipped (metrika_main False [] [page [''a.html''] doc_mixed]) = 1"
proof -
  have r: "read_text_ignore (page [''a.html''] doc_mixed) = doc_mixed"
    by (simp add: read_text_ignore_def page_def)
  show ?thesis
    using C10_target_id_anywhere_is_skipped [of "[page [''a.html''] doc_mixed]" "page [''a.html''] doc_mixed" "[]" False]
      doc_mixed_facts(1,2,3) r
    by simp
qed

section \<open>Partitioned sitemaps\<close>

lemma dec_1digit: "n < 10 \<Longrightarrow> dec n = [digit n]"
  by (subst dec.simps) simp

lemma dec_2digit: "10 \<le> n \<Longrightarrow> n < 100 \<Longrightarrow> dec n = [digit (n div 10), digit (n mod 10)]"
  by (subst dec.simps) (simp add: dec_1digit)

lemma dec_3digit:
  "100 \<le> n \<Longrightarrow> n < 1000 \<Longrightarrow> dec n = [digit (n div 100), digit (n div 10 mod 10), digit (n mod 10)]"
  by (subst dec.simps) (simp add: dec_2digit div_mult2_eq [symmetric])

lemma dec_4digit:
  "1000 \<le> n \<Longrightarrow> n < 10000 \<Longrightarrow>
   dec n = [digit (n div 1000), digit (n div 100 mod 10), digit (n div 10 mod 10), digit (n mod 10)]"
  by (subst dec.simps) (simp add: dec_3digit div_mult2_eq [symmetric])

lemma is_digit_digit: "k < 10 \<Longrightarrow> is_digit (digit k)"
proof -
  assume "k < 10"
  then have "k \<in> {0, 1, 2, 3, 4, 5, 6, 7, 8, 9}" by auto
  then show ?thesis by (auto simp: digit_def is_digit_def)
qed

lemma zfill2: "n < 100 \<Longrightarrow> zfill 2 (dec n) = [digit (n div 10), digit (n mod 10)]"
proof (cases "n < 10")
  case True
  then show ?thesis by (simp add: dec_1digit zfill_def digit_def)
next
  case False
  assume "n < 100"
  with False show ?thesis by (simp add: dec_2digit zfill_def)
qed

lemma zfill4: "zfill 4 [a, b, c, d] = [a, b, c, d]"
  by (simp add: zfill_def)

lemma fmt_w3c_explicit:
  assumes "valid_datetime (y, mo, d, h, mi, sec)"
  shows "fmt_w3c (y, mo, d, h, mi, sec) =
     [digit (y div 1000), digit (y div 100 mod 10), digit (y div 10 mod 10), digit (y mod 10),
      CHR ''-'', digit (mo div 10), digit (mo mod 10),
      CHR ''-'', digit (d div 10), digit (d mod 10),
      CHR ''T'', digit (h div 10), digit (h mod 10),
      CHR '':'', digit (mi div 10), digit (mi mod 10),
      CHR '':'', digit (sec div 10), digit (sec mod 10), CHR ''Z'']"
proof -
  from assms have r: "1000 \<le> y" "y < 10000" "mo < 100" "d < 100" "h < 100" "mi < 100" "sec < 100"
    by (auto simp: valid_datetime_def)
  then show ?thesis
    by (simp add: fmt_w3c_def zfill2 zfill4 dec_4digit)
qed

lemma fmt_w3c_valid: "valid_datetime t \<Longrightarrow> w3c_valid (fmt_w3c t)"
proof -
  assume v: "valid_datetime t"
  obtain y mo d h mi sec where t: "t = (y, mo, d, h, mi, sec)" by (cases t) auto
  from v t have r: "y < 10000" "mo < 100" "d < 100" "h < 100" "mi < 100" "sec < 100"
    by (auto simp: valid_datetime_def)
  have dg: "\<And>n. is_digit (digit (n mod 10))" by (simp add: is_digit_digit)
  have dg2: "\<And>n. n < 100 \<Longrightarrow> is_digit (digit (n div 10))" by (simp add: is_digit_digit)
  have dg4: "is_digit (digit (y div 1000))" using r by (simp add: is_digit_digit)
  show ?thesis
    unfolding t w3c_valid_def RE_W3C_def fmt_w3c_explicit [OF v [unfolded t]]
    using r dg dg2 dg4
    by (simp add: char_eq_def)
qed


lemma chunks_100050:
  assumes "length items = 100050"
  shows "chunks 49000 0 items =
     [(''sitemap-1.xml'', take 49000 items),
      (''sitemap-2.xml'', take 49000 (drop 49000 items)),
      (''sitemap-3.xml'', drop 98000 items)]"
proof -
  have c4: "chunks 49000 147000 items = []"
    by (subst chunks.simps) (simp add: assms)
  have c3: "chunks 49000 98000 items = [(''sitemap-3.xml'', drop 98000 items)]"
    by (subst chunks.simps) (simp add: assms c4 dec_1digit digit_def)
  have c2: "chunks 49000 49000 items =
      [(''sitemap-2.xml'', take 49000 (drop 49000 items)), (''sitemap-3.xml'', drop 98000 items)]"
    by (subst chunks.simps) (simp add: assms c3 dec_1digit digit_def)
  show ?thesis
    by (subst chunks.simps) (simp add: assms c2 dec_1digit digit_def)
qed

lemma sort_reverse_descending: "sorted (rev (map key (sort_reverse key xs)))"
  by (simp add: sort_reverse_def rev_map [symmetric])

lemma length_sort_reverse: "length (sort_reverse key xs) = length xs"
  by (simp add: sort_reverse_def)

lemma join_Cons: "join sep (x # xs) = x @ concat (map (\<lambda>z. sep @ z) xs)"
  by (simp add: join_def)

lemma concat_blocks:
  "concat (map (\<lambda>z. sep @ z) (concat (map (\<lambda>it. [a, f it, g it, b]) items) @ [t]))
     = concat (map (\<lambda>it. sep @ a @ sep @ f it @ sep @ g it @ sep @ b) items) @ sep @ t"
  by (induction items) simp_all

lemma sitemap_text_explicit:
  \<open>sitemap_text items =
     XML_HEAD @ ''<urlset xmlns="http://www.sitemaps.org/schemas/sitemap/0.9">'' @ [CHR 0x0A] @
     concat (map (\<lambda>it. [CHR 0x0A] @ ''  <url>'' @ [CHR 0x0A] @ ''    <loc>'' @ loc it @ ''</loc>'' @
                       [CHR 0x0A] @ ''    <lastmod>'' @ lastmod it @ ''</lastmod>'' @
                       [CHR 0x0A] @ ''  </url>'') items) @
     [CHR 0x0A] @ ''</urlset>'' @ [CHR 0x0A]\<close>
  unfolding sitemap_text_def Let_def append.simps(2) append.simps(1) join_Cons concat_blocks
  by simp

lemma sitemap_index_text_three:
  \<open>sitemap_index_text b now [p1, p2, p3] =
     XML_HEAD @ ''<sitemapindex xmlns="http://www.sitemaps.org/schemas/sitemap/0.9">'' @ [CHR 0x0A] @
     [CHR 0x0A] @ ''  <sitemap>'' @ [CHR 0x0A] @ ''    <loc>'' @ escape (b @ ''/'' @ p1) @ ''</loc>'' @
     [CHR 0x0A] @ ''    <lastmod>'' @ fmt_w3c now @ ''</lastmod>'' @ [CHR 0x0A] @ ''  </sitemap>'' @
     [CHR 0x0A] @ ''  <sitemap>'' @ [CHR 0x0A] @ ''    <loc>'' @ escape (b @ ''/'' @ p2) @ ''</loc>'' @
     [CHR 0x0A] @ ''    <lastmod>'' @ fmt_w3c now @ ''</lastmod>'' @ [CHR 0x0A] @ ''  </sitemap>'' @
     [CHR 0x0A] @ ''  <sitemap>'' @ [CHR 0x0A] @ ''    <loc>'' @ escape (b @ ''/'' @ p3) @ ''</loc>'' @
     [CHR 0x0A] @ ''    <lastmod>'' @ fmt_w3c now @ ''</lastmod>'' @ [CHR 0x0A] @ ''  </sitemap>'' @
     [CHR 0x0A] @ ''</sitemapindex>'' @ [CHR 0x0A]\<close>
  by (simp add: sitemap_index_text_def Let_def join_def)

lemma many_pages_kept:
  "sitemap_keep (page [CHR ''p'' # dec k @ ''.html''] [])"
  "endswith (path_name (parts (page [CHR ''p'' # dec k @ ''.html''] []))) ''.html''"
  by (simp_all add: sitemap_keep_def page_def EXCLUDE_DIRS_def EXCLUDE_FILES_RE_def path_name_def
      char_eq_def lower_char_def is_upper_def endswith_def)

lemma length_collect_many_pages: "length (collect b (many_pages n)) = n"
proof -
  have "filter sitemap_keep (rglob ''.html'' (many_pages n)) = many_pages n"
    unfolding rglob_def many_pages_def
    by (simp add: filter_map o_def many_pages_kept)
  then show ?thesis
    by (simp add: collect_def length_sort_reverse many_pages_def)
qed

text \<open>
  Claim C7. With 100,050 entries and MAX\_URLS = 49000 the generator writes exactly the
  three parts sitemap-1.xml, sitemap-2.xml and sitemap-3.xml, cut by position from the
  entries in descending order of \<open>dt\<close>, then the index sitemap\_index.xml, whose
  three entries refer to these three parts and carry the time of writing in the W3C
  format, and sitemap.xml, which refers to the index.
\<close>

theorem C7_three_parts:
  assumes "items = collect (BASE_URL env) files"
    and "length items = 100050"
    and "MAX_URLS env = 49000"
    and "valid_datetime (now_index env)"
  shows \<open>sorted (rev (map dt (items)))
   \<and> sitemap_main env (files) =
       Inr ([Write [''sitemap-1.xml'']
               (''<?xml version="1.0" encoding="UTF-8"?>'' @ [CHR 0x0A] @
                ''<urlset xmlns="http://www.sitemaps.org/schemas/sitemap/0.9">'' @ [CHR 0x0A] @
                concat (map (\<lambda>it. [CHR 0x0A] @ ''  <url>'' @ [CHR 0x0A] @ ''    <loc>'' @ loc it @ ''</loc>'' @
                                  [CHR 0x0A] @ ''    <lastmod>'' @ lastmod it @ ''</lastmod>'' @
                                  [CHR 0x0A] @ ''  </url>'') (take 49000 items)) @
                [CHR 0x0A] @ ''</urlset>'' @ [CHR 0x0A]),
             Write [''sitemap-2.xml'']
               (''<?xml version="1.0" encoding="UTF-8"?>'' @ [CHR 0x0A] @
                ''<urlset xmlns="http://www.sitemaps.org/schemas/sitemap/0.9">'' @ [CHR 0x0A] @
                concat (map (\<lambda>it. [CHR 0x0A] @ ''  <url>'' @ [CHR 0x0A] @ ''    <loc>'' @ loc it @ ''</loc>'' @
                                  [CHR 0x0A] @ ''    <lastmod>'' @ lastmod it @ ''</lastmod>'' @
                                  [CHR 0x0A] @ ''  </url>'') (take 49000 (drop 49000 items))) @
                [CHR 0x0A] @ ''</urlset>'' @ [CHR 0x0A]),
             Write [''sitemap-3.xml'']
               (''<?xml version="1.0" encoding="UTF-8"?>'' @ [CHR 0x0A] @
                ''<urlset xmlns="http://www.sitemaps.org/schemas/sitemap/0.9">'' @ [CHR 0x0A] @
                concat (map (\<lambda>it. [CHR 0x0A] @ ''  <url>'' @ [CHR 0x0A] @ ''    <loc>'' @ loc it @ ''</loc>'' @
                                  [CHR 0x0A] @ ''    <lastmod>'' @ lastmod it @ ''</lastmod>'' @
                                  [CHR 0x0A] @ ''  </url>'') (drop 98000 items)) @
                [CHR 0x0A] @ ''</urlset>'' @ [CHR 0x0A]),
             Write [''sitemap_index.xml'']
               (''<?xml version="1.0" encoding="UTF-8"?>'' @ [CHR 0x0A] @
                ''<sitemapindex xmlns="http://www.sitemaps.org/schemas/sitemap/0.9">'' @ [CHR 0x0A] @
                [CHR 0x0A] @ ''  <sitemap>'' @ [CHR 0x0A] @ ''    <loc>'' @ escape (BASE_URL env @ ''/sitemap-1.xml'') @ ''</loc>'' @
                [CHR 0x0A] @ ''    <lastmod>'' @ fmt_w3c (now_index env) @ ''</lastmod>'' @ [CHR 0x0A] @ ''  </sitemap>'' @
                [CHR 0x0A] @ ''  <sitemap>'' @ [CHR 0x0A] @ ''    <loc>'' @ escape (BASE_URL env @ ''/sitemap-2.xml'') @ ''</loc>'' @
                [CHR 0x0A] @ ''    <lastmod>'' @ fmt_w3c (now_index env) @ ''</lastmod>'' @ [CHR 0x0A] @ ''  </sitemap>'' @
                [CHR 0x0A] @ ''  <sitemap>'' @ [CHR 0x0A] @ ''    <loc>'' @ escape (BASE_URL env @ ''/sitemap-3.xml'') @ ''</loc>'' @
                [CHR 0x0A] @ ''    <lastmod>'' @ fmt_w3c (now_index env) @ ''</lastmod>'' @ [CHR 0x0A] @ ''  </sitemap>'' @
                [CHR 0x0A] @ ''</sitemapindex>'' @ [CHR 0x0A]),
             Write [''sitemap.xml'']
               (''<?xml version="1.0" encoding="UTF-8"?>'' @ [CHR 0x0A] @
                ''<sitemapindex xmlns="http://www.sitemaps.org/schemas/sitemap/0.9">'' @ [CHR 0x0A] @
                ''  <sitemap>'' @ [CHR 0x0A] @ ''    <loc>'' @ escape (BASE_URL env @ ''/sitemap_index.xml'') @ ''</loc>'' @ [CHR 0x0A] @
                ''    <lastmod>'' @ fmt_w3c (now_main env) @ ''</lastmod>'' @ [CHR 0x0A] @
                ''  </sitemap>'' @ [CHR 0x0A] @ ''</sitemapindex>'' @ [CHR 0x0A])] @
            (if MAKE_ROBOTS env then ensure_robots (BASE_URL env) (robots_txt env) else []))
   \<and> w3c_valid (fmt_w3c (now_index env))\<close>
proof -
  have a: "sorted (rev (map dt items))"
    unfolding assms(1) collect_def by (rule sort_reverse_descending)
  have b: \<open>sitemap_main env files =
       Inr ([Write [''sitemap-1.xml''] (sitemap_text (take 49000 items)),
             Write [''sitemap-2.xml''] (sitemap_text (take 49000 (drop 49000 items))),
             Write [''sitemap-3.xml''] (sitemap_text (drop 98000 items)),
             Write [''sitemap_index.xml'']
               (sitemap_index_text (BASE_URL env) (now_index env)
                  [''sitemap-1.xml'', ''sitemap-2.xml'', ''sitemap-3.xml'']),
             Write [''sitemap.xml'']
               (XML_HEAD @
                ''<sitemapindex xmlns="http://www.sitemaps.org/schemas/sitemap/0.9">'' @ [CHR 0x0A] @
                ''  <sitemap>'' @ [CHR 0x0A] @ ''    <loc>'' @
                escape (BASE_URL env @ ''/sitemap_index.xml'') @ ''</loc>'' @ [CHR 0x0A] @
                ''    <lastmod>'' @ fmt_w3c (now_main env) @ ''</lastmod>'' @ [CHR 0x0A] @
                ''  </sitemap>'' @ [CHR 0x0A] @
                ''</sitemapindex>'' @ [CHR 0x0A])] @
            (if MAKE_ROBOTS env then ensure_robots (BASE_URL env) (robots_txt env) else []))\<close>
    unfolding sitemap_main_def sitemap_emit_def assms(1) [symmetric] Let_def
    by (simp add: assms(2,3) chunks_100050 [OF assms(2)])
  have c: "w3c_valid (fmt_w3c (now_index env))"
    using assms(4) by (rule fmt_w3c_valid)
  show ?thesis
    unfolding b sitemap_text_explicit sitemap_index_text_three XML_HEAD_def
    using a c by simp
qed

theorem C7_three_parts_witness:
  \<open>length (collect (BASE_URL sitemap_env0) (many_pages 100050)) = 100050
   \<and> MAX_URLS sitemap_env0 = 49000
   \<and> valid_datetime (now_index sitemap_env0)
   \<and> sorted (rev (map dt (collect (BASE_URL sitemap_env0) (many_pages 100050))))
   \<and> sitemap_main sitemap_env0 (many_pages 100050) =
       Inr ([Write [''sitemap-1.xml'']
               (''<?xml version="1.0" encoding="UTF-8"?>'' @ [CHR 0x0A] @
                ''<urlset xmlns="http://www.sitemaps.org/schemas/sitemap/0.9">'' @ [CHR 0x0A] @
                concat (map (\<lambda>it. [CHR 0x0A] @ ''  <url>'' @ [CHR 0x0A] @ ''    <loc>'' @ loc it @ ''</loc>'' @
                                  [CHR 0x0A] @ ''    <lastmod>'' @ lastmod it @ ''</lastmod>'' @
                                  [CHR 0x0A] @ ''  </url>'') (take 49000 (collect (BASE_URL sitemap_env0) (many_pages 100050)))) @
                [CHR 0x0A] @ ''</urlset>'' @ [CHR 0x0A]),
             Write [''sitemap-2.xml'']
               (''<?xml version="1.0" encoding="UTF-8"?>'' @ [CHR 0x0A] @
                ''<urlset xmlns="http://www.sitemaps.org/schemas/sitemap/0.9">'' @ [CHR 0x0A] @
                concat (map (\<lambda>it. [CHR 0x0A] @ ''  <url>'' @ [CHR 0x0A] @ ''    <loc>'' @ loc it @ ''</loc>'' @
                                  [CHR 0x0A] @ ''    <lastmod>'' @ lastmod it @ ''</lastmod>'' @
                                  [CHR 0x0A] @ ''  </url>'') (take 49000 (drop 49000 (collect (BASE_URL sitemap_env0) (many_pages 100050))))) @
                [CHR 0x0A] @ ''</urlset>'' @ [CHR 0x0A]),
             Write [''sitemap-3.xml'']
               (''<?xml version="1.0" encoding="UTF-8"?>'' @ [CHR 0x0A] @
                ''<urlset xmlns="http://www.sitemaps.org/schemas/sitemap/0.9">'' @ [CHR 0x0A] @
                concat (map (\<lambda>it. [CHR 0x0A] @ ''  <url>'' @ [CHR 0x0A] @ ''    <loc>'' @ loc it @ ''</loc>'' @
                                  [CHR 0x0A] @ ''    <lastmod>'' @ lastmod it @ ''</lastmod>'' @
                                  [CHR 0x0A] @ ''  </url>'') (drop 98000 (collect (BASE_URL sitemap_env0) (many_pages 100050)))) @
                [CHR 0x0A] @ ''</urlset>'' @ [CHR 0x0A]),
             Write [''sitemap_index.xml'']
               (''<?xml version="1.0" encoding="UTF-8"?>'' @ [CHR 0x0A] @
                ''<sitemapindex xmlns="http://www.sitemaps.org/schemas/sitemap/0.9">'' @ [CHR 0x0A] @
                [CHR 0x0A] @ ''  <sitemap>'' @ [CHR 0x0A] @ ''    <loc>'' @ ''https://acme.github.io/sitemap-1.xml'' @ ''</loc>'' @
                [CHR 0x0A] @ ''    <lastmod>'' @ ''2025-06-01T12:00:00Z'' @ ''</lastmod>'' @ [CHR 0x0A] @ ''  </sitemap>'' @
                [CHR 0x0A] @ ''  <sitemap>'' @ [CHR 0x0A] @ ''    <loc>'' @ ''https://acme.github.io/sitemap-2.xml'' @ ''</loc>'' @
                [CHR 0x0A] @ ''    <lastmod>'' @ ''2025-06-01T12:00:00Z'' @ ''</lastmod>'' @ [CHR 0x0A] @ ''  </sitemap>'' @
                [CHR 0x0A] @ ''  <sitemap>'' @ [CHR 0x0A] @ ''    <loc>'' @ ''https://acme.github.io/sitemap-3.xml'' @ ''</loc>'' @
                [CHR 0x0A] @ ''    <lastmod>'' @ ''2025-06-01T12:00:00Z'' @ ''</lastmod>'' @ [CHR 0x0A] @ ''  </sitemap>'' @
                [CHR 0x0A] @ ''</sitemapindex>'' @ [CHR 0x0A]),
             Write [''sitemap.xml'']
               (''<?xml version="1.0" encoding="UTF-8"?>'' @ [CHR 0x0A] @
                ''<sitemapindex xmlns="http://www.sitemaps.org/schemas/sitemap/0.9">'' @ [CHR 0x0A] @
                ''  <sitemap>'' @ [CHR 0x0A] @ ''    <loc>'' @ ''https://acme.github.io/sitemap_index.xml'' @ ''</loc>'' @ [CHR 0x0A] @
                ''    <lastmod>'' @ ''2025-06-01T12:00:01Z'' @ ''</lastmod>'' @ [CHR 0x0A] @
                ''  </sitemap>'' @ [CHR 0x0A] @ ''</sitemapindex>'' @ [CHR 0x0A])])
   \<and> w3c_valid (''2025-06-01T12:00:00Z'')\<close>
proof -
  have v: "valid_datetime (now_index sitemap_env0)"
    by (simp add: sitemap_env0_def valid_datetime_def)
  have m: "MAX_URLS sitemap_env0 = 49000"
    by (simp add: sitemap_env0_def)
  have e: "escape (BASE_URL sitemap_env0 @ ''/sitemap-1.xml'') = ''https://acme.github.io/sitemap-1.xml''"
    "escape (BASE_URL sitemap_env0 @ ''/sitemap-2.xml'') = ''https://acme.github.io/sitemap-2.xml''"
    "escape (BASE_URL sitemap_env0 @ ''/sitemap-3.xml'') = ''https://acme.github.io/sitemap-3.xml''"
    "escape (BASE_URL sitemap_env0 @ ''/sitemap_index.xml'') = ''https://acme.github.io/sitemap_index.xml''"
    by code_simp+
  have t: "fmt_w3c (now_index sitemap_env0) = ''2025-06-01T12:00:00Z''"
    "fmt_w3c (now_main sitemap_env0) = ''2025-06-01T12:00:01Z''"
    by code_simp+
  have r: "(if MAKE_ROBOTS sitemap_env0
            then ensure_robots (BASE_URL sitemap_env0) (robots_txt sitemap_env0) else []) = []"
    by (simp add: sitemap_env0_def)
  note c = C7_three_parts [of "collect (BASE_URL sitemap_env0) (many_pages 100050)" sitemap_env0
        "many_pages 100050", OF refl length_collect_many_pages m v, unfolded e t r append_Nil2]
  from c v m length_collect_many_pages
  show ?thesis by (intro conjI) (assumption | rule length_collect_many_pages | elim conjE)+
qed

section \<open>The matcher and the texts a pattern describes\<close>

lemma lit_prefix_length: "lit_prefix ci l s \<Longrightarrow> length l \<le> length s"
  by (induction ci l s rule: lit_prefix.induct) (auto split: if_splits)

lemma lit_prefix_take: "lit_prefix ci l s \<Longrightarrow> lit_prefix ci l (take (length l) s)"
  by (induction ci l s rule: lit_prefix.induct) (auto split: if_splits)

lemma lit_prefix_append: "lit_prefix ci l u \<Longrightarrow> lit_prefix ci l (u @ v)"
  by (induction ci l u rule: lit_prefix.induct) (auto split: if_splits)

lemma lit_eq_take: "lit_prefix ci l s \<Longrightarrow> lit_eq ci l (take (length l) s)"
  using lit_prefix_length [of ci l s] by (simp add: lit_eq_def lit_prefix_take)

lemma greedy_Some:
  "greedy f lo hi = Some n \<Longrightarrow> \<exists>j n'. lo \<le> j \<and> j \<le> hi \<and> f j = Some n' \<and> n = j + n'"
proof (induction hi)
  case 0
  then have "lo = 0 \<and> f 0 = Some n" by (simp split: if_splits)
  then have "lo \<le> 0 \<and> (0::nat) \<le> 0 \<and> f 0 = Some n \<and> n = 0 + n" by simp
  then show ?case by blast
next
  case (Suc h)
  from Suc.prems have lo: "\<not> Suc h < lo" by (simp split: if_splits)
  show ?case
  proof (cases "f (Suc h)")
    case None
    with Suc.prems lo have "greedy f lo h = Some n" by simp
    from Suc.IH [OF this] obtain j n' where "lo \<le> j" "j \<le> h" "f j = Some n'" "n = j + n'"
      by blast
    then have "lo \<le> j \<and> j \<le> Suc h \<and> f j = Some n' \<and> n = j + n'" by simp
    then show ?thesis by blast
  next
    case (Some n')
    with Suc.prems lo have "n = Suc h + n'" by simp
    with Some lo have "lo \<le> Suc h \<and> Suc h \<le> Suc h \<and> f (Suc h) = Some n' \<and> n = Suc h + n'"
      by simp
    then show ?thesis by blast
  qed
qed

lemma both_hold: "A \<Longrightarrow> B \<Longrightarrow> A = B"
  by simp

lemma both_fail: "\<not> A \<Longrightarrow> \<not> B \<Longrightarrow> A = B"
  by simp

lemma greedy_None:
  "greedy f lo hi = None \<longleftrightarrow> (\<forall>j. lo \<le> j \<and> j \<le> hi \<longrightarrow> f j = None)"
proof (induction hi)
  case 0
  show ?case
  proof (cases "lo = 0")
    case True
    have "(\<forall>j. lo \<le> j \<and> j \<le> 0 \<longrightarrow> f j = None) \<longleftrightarrow> f 0 = None"
    proof
      assume a: "\<forall>j. lo \<le> j \<and> j \<le> 0 \<longrightarrow> f j = None"
      from a have "lo \<le> 0 \<and> (0::nat) \<le> 0 \<longrightarrow> f 0 = None" by (rule spec)
      with True show "f 0 = None" by simp
    next
      assume a: "f 0 = None"
      show "\<forall>j. lo \<le> j \<and> j \<le> 0 \<longrightarrow> f j = None"
      proof (intro allI impI)
        fix j :: nat assume "lo \<le> j \<and> j \<le> 0"
        then have "j = 0" by simp
        with a show "f j = None" by simp
      qed
    qed
    moreover from True have "greedy f lo 0 = f 0" by simp
    ultimately show ?thesis by (simp only:)
  next
    case False
    then have g: "greedy f lo 0 = None" by simp
    have "\<forall>j. lo \<le> j \<and> j \<le> 0 \<longrightarrow> f j = None"
    proof (intro allI impI)
      fix j :: nat assume "lo \<le> j \<and> j \<le> 0"
      with False have False by simp
      then show "f j = None" ..
    qed
    with g show ?thesis by (rule both_hold)
  qed
next
  case (Suc h)
  show ?case
  proof (cases "Suc h < lo")
    case True
    then have g: "greedy f lo (Suc h) = None" by simp
    have "\<forall>j. lo \<le> j \<and> j \<le> Suc h \<longrightarrow> f j = None"
    proof (intro allI impI)
      fix j assume "lo \<le> j \<and> j \<le> Suc h"
      with True have False by linarith
      then show "f j = None" ..
    qed
    with g show ?thesis by (rule both_hold)
  next
    case False
    show ?thesis
    proof (cases "f (Suc h)")
      case None
      with False have e: "greedy f lo (Suc h) = greedy f lo h" by simp
      have eqv: "(\<forall>j. lo \<le> j \<and> j \<le> Suc h \<longrightarrow> f j = None) \<longleftrightarrow> (\<forall>j. lo \<le> j \<and> j \<le> h \<longrightarrow> f j = None)"
      proof
        assume a: "\<forall>j. lo \<le> j \<and> j \<le> Suc h \<longrightarrow> f j = None"
        show "\<forall>j. lo \<le> j \<and> j \<le> h \<longrightarrow> f j = None"
        proof (intro allI impI)
          fix j assume "lo \<le> j \<and> j \<le> h"
          then have b: "lo \<le> j \<and> j \<le> Suc h" by simp
          from a have "lo \<le> j \<and> j \<le> Suc h \<longrightarrow> f j = None" by (rule spec)
          then show "f j = None" using b by (rule mp)
        qed
      next
        assume a: "\<forall>j. lo \<le> j \<and> j \<le> h \<longrightarrow> f j = None"
        show "\<forall>j. lo \<le> j \<and> j \<le> Suc h \<longrightarrow> f j = None"
        proof (intro allI impI)
          fix j assume j: "lo \<le> j \<and> j \<le> Suc h"
          show "f j = None"
          proof (cases "j = Suc h")
            case True
            with None show ?thesis by simp
          next
            case False
            with j have b: "lo \<le> j \<and> j \<le> h" by simp
            from a have "lo \<le> j \<and> j \<le> h \<longrightarrow> f j = None" by (rule spec)
            then show ?thesis using b by (rule mp)
          qed
        qed
      qed
      have "(greedy f lo (Suc h) = None) = (greedy f lo h = None)" by (simp only: e)
      also have "\<dots> = (\<forall>j. lo \<le> j \<and> j \<le> h \<longrightarrow> f j = None)" by (rule Suc.IH)
      also have "\<dots> = (\<forall>j. lo \<le> j \<and> j \<le> Suc h \<longrightarrow> f j = None)" by (rule eqv [symmetric])
      finally show ?thesis .
    next
      case (Some a)
      with False have g: "greedy f lo (Suc h) \<noteq> None" by simp
      have "\<not> (\<forall>j. lo \<le> j \<and> j \<le> Suc h \<longrightarrow> f j = None)"
      proof
        assume "\<forall>j. lo \<le> j \<and> j \<le> Suc h \<longrightarrow> f j = None"
        then have "lo \<le> Suc h \<and> Suc h \<le> Suc h \<longrightarrow> f (Suc h) = None" by (rule spec)
        with False Some show False by simp
      qed
      with g show ?thesis by (rule both_fail)
    qed
  qed
qed

lemma takeWhile_all: "j \<le> length (takeWhile P s) \<Longrightarrow> \<forall>x\<in>set (take j s). P x"
proof (induction s arbitrary: j)
  case Nil
  then show ?case by simp
next
  case (Cons a s)
  then show ?case by (cases j) (auto split: if_splits)
qed

lemma all_takeWhile: "\<forall>x\<in>set u. P x \<Longrightarrow> length u \<le> length (takeWhile P (u @ v))"
  by (induction u) auto


lemma accepts_LitI:
  "lit_eq ci l u \<Longrightarrow> accepts ci r v rest \<Longrightarrow> accepts ci (Lit l # r) (u @ v) rest"
  unfolding accepts.simps by blast

lemma accepts_StarI:
  "\<forall>x\<in>set u. cl x \<Longrightarrow> accepts ci r v rest \<Longrightarrow> accepts ci (Star cl # r) (u @ v) rest"
  unfolding accepts.simps by blast

lemma accepts_PlusI:
  "u \<noteq> [] \<Longrightarrow> \<forall>x\<in>set u. cl x \<Longrightarrow> accepts ci r v rest \<Longrightarrow> accepts ci (Plus cl # r) (u @ v) rest"
  unfolding accepts.simps by blast

lemma accepts_OptI1:
  "lit_eq ci l u \<Longrightarrow> accepts ci r v rest \<Longrightarrow> accepts ci (Opt l # r) (u @ v) rest"
  unfolding accepts.simps by blast

lemma take_split: "take (j + k) s = take j s @ take k (drop j s)"
  by (rule take_add)

lemma drop_split: "drop (j + k) s = drop k (drop j s)"
  by (simp add: add.commute)


lemma conj_leD1: "(n::nat) \<le> m \<and> Q \<Longrightarrow> n \<le> m"
  by simp

theorem re_match_sound:
  "re_match ci r s = Some n \<Longrightarrow> n \<le> length s \<and> accepts ci r (take n s) (drop n s)"
proof (induction ci r s arbitrary: n rule: re_match.induct)
  case (1 ci s)
  then show ?case by simp
next
  case (2 ci l r s)
  from "2.prems" have lp: "lit_prefix ci l s" by (simp split: if_splits)
  with "2.prems" have "map_option (\<lambda>n. length l + n) (re_match ci r (drop (length l) s)) = Some n"
    by simp
  then obtain n' where n': "re_match ci r (drop (length l) s) = Some n'" "n = length l + n'"
    unfolding map_option_eq_Some by (elim exE conjE) (rule that, assumption, simp)
  note ih = "2.IH" [OF lp n'(1)]
  from ih have ih1: "n' \<le> length (drop (length l) s)" by (rule conjunct1)
  from ih have ih2: "accepts ci r (take n' (drop (length l) s)) (drop n' (drop (length l) s))"
    by (rule conjunct2)
  have len: "length l \<le> length s" using lp by (rule lit_prefix_length)
  have a: "accepts ci (Lit l # r) (take (length l) s @ take n' (drop (length l) s))
             (drop n' (drop (length l) s))"
    by (rule accepts_LitI [OF lit_eq_take [OF lp] ih2])
  have b: "accepts ci (Lit l # r) (take n s) (drop n s)"
    unfolding n'(2) take_split drop_split by (rule a)
  have c: "n \<le> length s" using ih1 len n'(2) by simp
  from c b show ?case by (rule conjI)
next
  case (3 ci cl r s)
  then obtain x xs where s: "s = x # xs" by (cases s) simp_all
  with "3.prems" have cx: "cl x" by (simp split: if_splits)
  with "3.prems" s have "map_option Suc (re_match ci r xs) = Some n" by simp
  then obtain n' where n': "re_match ci r xs = Some n'" "n = Suc n'"
    unfolding map_option_eq_Some by (elim exE conjE) (rule that, assumption, simp)
  note ih = "3.IH" [OF s cx n'(1)]
  from ih have ih1: "n' \<le> length xs" by (rule conjunct1)
  from ih have ih2: "accepts ci r (take n' xs) (drop n' xs)" by (rule conjunct2)
  have b: "accepts ci (One cl # r) (take n s) (drop n s)"
    unfolding s n'(2) using cx ih2 by simp
  have c: "n \<le> length s" using ih1 s n'(2) by simp
  from c b show ?case by (rule conjI)
next
  case (4 ci cl r s)
  from "4.prems" have "greedy (\<lambda>j. re_match ci r (drop j s)) 0 (length (takeWhile cl s)) = Some n"
    by simp
  from greedy_Some [OF this] obtain j n' where j: "j \<le> length (takeWhile cl s)"
    "re_match ci r (drop j s) = Some n'" "n = j + n'"
    by (elim exE conjE) (rule that)
  note ih = "4.IH" [OF j(2)]
  from ih have ih1: "n' \<le> length (drop j s)" by (rule conjunct1)
  from ih have ih2: "accepts ci r (take n' (drop j s)) (drop n' (drop j s))" by (rule conjunct2)
  have jl: "j \<le> length s" using j(1) length_takeWhile_le [of cl s] by simp
  have a: "accepts ci (Star cl # r) (take j s @ take n' (drop j s)) (drop n' (drop j s))"
    by (rule accepts_StarI [OF takeWhile_all [OF j(1)] ih2])
  have b: "accepts ci (Star cl # r) (take n s) (drop n s)"
    unfolding j(3) take_split drop_split by (rule a)
  have c: "n \<le> length s" using ih1 jl j(3) by simp
  from c b show ?case by (rule conjI)
next
  case (5 ci cl r s)
  from "5.prems" have "greedy (\<lambda>j. re_match ci r (drop j s)) 1 (length (takeWhile cl s)) = Some n"
    by simp
  from greedy_Some [OF this] obtain j n' where j: "1 \<le> j" "j \<le> length (takeWhile cl s)"
    "re_match ci r (drop j s) = Some n'" "n = j + n'"
    by (elim exE conjE) (rule that)
  note ih = "5.IH" [OF j(3)]
  from ih have ih1: "n' \<le> length (drop j s)" by (rule conjunct1)
  from ih have ih2: "accepts ci r (take n' (drop j s)) (drop n' (drop j s))" by (rule conjunct2)
  have jl: "j \<le> length s" using j(2) length_takeWhile_le [of cl s] by simp
  have ne: "take j s \<noteq> []" using j(1) jl by (cases s) simp_all
  have a: "accepts ci (Plus cl # r) (take j s @ take n' (drop j s)) (drop n' (drop j s))"
    by (rule accepts_PlusI [OF ne takeWhile_all [OF j(2)] ih2])
  have b: "accepts ci (Plus cl # r) (take n s) (drop n s)"
    unfolding j(4) take_split drop_split by (rule a)
  have c: "n \<le> length s" using ih1 jl j(4) by simp
  from c b show ?case by (rule conjI)
next
  case (6 ci l r s)
  show ?case
  proof (cases "lit_prefix ci l s \<and> re_match ci r (drop (length l) s) \<noteq> None")
    case True
    then have lp: "lit_prefix ci l s" by (rule conjunct1)
    from True obtain n' where n'1: "re_match ci r (drop (length l) s) = Some n'"
      by (cases "re_match ci r (drop (length l) s)") simp_all
    with "6.prems" lp have n'2: "n = length l + n'" by simp
    note ih = "6.IH"(1) [OF lp n'1]
    from ih have ih1: "n' \<le> length (drop (length l) s)" by (rule conjunct1)
    from ih have ih2: "accepts ci r (take n' (drop (length l) s)) (drop n' (drop (length l) s))"
      by (rule conjunct2)
    have len: "length l \<le> length s" using lp by (rule lit_prefix_length)
    have a: "accepts ci (Opt l # r) (take (length l) s @ take n' (drop (length l) s))
               (drop n' (drop (length l) s))"
      by (rule accepts_OptI1 [OF lit_eq_take [OF lp] ih2])
    have b: "accepts ci (Opt l # r) (take n s) (drop n s)"
      unfolding n'2 take_split drop_split by (rule a)
    have c: "n \<le> length s" using ih1 len n'2 by simp
    from c b show ?thesis by (rule conjI)
  next
    case False
    then have e: "(if lit_prefix ci l s
            then map_option (\<lambda>n. length l + n) (re_match ci r (drop (length l) s))
            else None) = None" by (cases "lit_prefix ci l s") simp_all
    with "6.prems" have m: "re_match ci r s = Some n" by simp
    note ih = "6.IH"(2) [OF e m]
    from ih have ih1: "n \<le> length s" by (rule conjunct1)
    from ih have ih2: "accepts ci r (take n s) (drop n s)" by (rule conjunct2)
    from ih2 have b: "accepts ci (Opt l # r) (take n s) (drop n s)" by simp
    from ih1 b show ?thesis by (rule conjI)
  qed
next
  case (7 ci r s)
  from "7.prems" have e: "s = [] \<or> s = [CHR 0x0A]" by (simp split: if_splits)
  with "7.prems" have m: "re_match ci r s = Some n" by simp
  note ih = "7.IH" [OF e m]
  from ih have ih1: "n \<le> length s" by (rule conjunct1)
  from ih have ih2: "accepts ci r (take n s) (drop n s)" by (rule conjunct2)
  from e ih2 have b: "accepts ci (Eol # r) (take n s) (drop n s)" by simp
  from ih1 b show ?case by (rule conjI)
qed

lemma lit_eq_prefix: "lit_eq ci l u \<Longrightarrow> lit_prefix ci l (u @ v)"
  unfolding lit_eq_def by (elim conjE) (rule lit_prefix_append)

lemma lit_eq_drop: "lit_eq ci l u \<Longrightarrow> drop (length l) (u @ v) = v"
  unfolding lit_eq_def by simp

lemma greedy_found:
  assumes "lo \<le> j" and "j \<le> hi" and "f j \<noteq> None"
  shows "greedy f lo hi \<noteq> None"
proof
  assume "greedy f lo hi = None"
  then have "\<forall>j. lo \<le> j \<and> j \<le> hi \<longrightarrow> f j = None" by (simp only: greedy_None)
  then have "lo \<le> j \<and> j \<le> hi \<longrightarrow> f j = None" by (rule spec)
  with assms show False by simp
qed

theorem re_match_complete:
  "accepts ci r w rest \<Longrightarrow> re_match ci r (w @ rest) \<noteq> None"
proof (induction ci r w rest rule: accepts.induct)
  case (1 ci w rest)
  then show ?case by simp
next
  case (2 ci l r w rest)
  from "2.prems" obtain u v where uv: "w = u @ v" "lit_eq ci l u" "accepts ci r v rest"
    unfolding accepts.simps by (elim exE conjE) (rule that)
  from "2.IH" [OF uv(3)] have ih: "re_match ci r (v @ rest) \<noteq> None" .
  have lp: "lit_prefix ci l (u @ v @ rest)" using uv(2) by (rule lit_eq_prefix)
  have dr: "drop (length l) (u @ v @ rest) = v @ rest" using uv(2) by (rule lit_eq_drop)
  show ?case unfolding uv(1) using lp dr ih by simp
next
  case (3 ci cl r w rest)
  from "3.prems" obtain x v where xv: "w = x # v" "cl x" "accepts ci r v rest"
    unfolding accepts.simps by (elim exE conjE) (rule that)
  from "3.IH" [OF xv(3)] have ih: "re_match ci r (v @ rest) \<noteq> None" .
  show ?case unfolding xv(1) using xv(2) ih by simp
next
  case (4 ci cl r w rest)
  from "4.prems" obtain u v where uv: "w = u @ v" "\<forall>x\<in>set u. cl x" "accepts ci r v rest"
    unfolding accepts.simps by (elim exE conjE) (rule that)
  from "4.IH" [OF uv(3)] have ih: "re_match ci r (v @ rest) \<noteq> None" .
  have hi: "length u \<le> length (takeWhile cl (u @ v @ rest))" using uv(2) by (rule all_takeWhile)
  have f: "(\<lambda>j. re_match ci r (drop j (u @ v @ rest))) (length u) \<noteq> None" using ih by simp
  have "greedy (\<lambda>j. re_match ci r (drop j (u @ v @ rest))) 0 (length (takeWhile cl (u @ v @ rest))) \<noteq> None"
    using greedy_found [of 0 "length u" "length (takeWhile cl (u @ v @ rest))"
        "\<lambda>j. re_match ci r (drop j (u @ v @ rest))"] hi f by simp
  then show ?case unfolding uv(1) by simp
next
  case (5 ci cl r w rest)
  from "5.prems" obtain u v where uv: "w = u @ v" "u \<noteq> []" "\<forall>x\<in>set u. cl x" "accepts ci r v rest"
    unfolding accepts.simps by (elim exE conjE) (rule that)
  from "5.IH" [OF uv(4)] have ih: "re_match ci r (v @ rest) \<noteq> None" .
  have hi: "length u \<le> length (takeWhile cl (u @ v @ rest))" using uv(3) by (rule all_takeWhile)
  have lo: "1 \<le> length u" using uv(2) by (cases u) simp_all
  have f: "(\<lambda>j. re_match ci r (drop j (u @ v @ rest))) (length u) \<noteq> None" using ih by simp
  have "greedy (\<lambda>j. re_match ci r (drop j (u @ v @ rest))) 1 (length (takeWhile cl (u @ v @ rest))) \<noteq> None"
    using greedy_found [of 1 "length u" "length (takeWhile cl (u @ v @ rest))"
        "\<lambda>j. re_match ci r (drop j (u @ v @ rest))"] lo hi f by simp
  then show ?case unfolding uv(1) by simp
next
  case (6 ci l r w rest)
  from "6.prems" have "(\<exists>u v. w = u @ v \<and> lit_eq ci l u \<and> accepts ci r v rest) \<or> accepts ci r w rest"
    by simp
  then show ?case
  proof
    assume "\<exists>u v. w = u @ v \<and> lit_eq ci l u \<and> accepts ci r v rest"
    then obtain u v where uv: "w = u @ v" "lit_eq ci l u" "accepts ci r v rest"
      by (elim exE conjE) (rule that)
    from "6.IH"(1) [OF uv(3)] have ih: "re_match ci r (v @ rest) \<noteq> None" .
    have lp: "lit_prefix ci l (u @ v @ rest)" using uv(2) by (rule lit_eq_prefix)
    have dr: "drop (length l) (u @ v @ rest) = v @ rest" using uv(2) by (rule lit_eq_drop)
    from ih obtain k where k: "re_match ci r (v @ rest) = Some k" by (cases "re_match ci r (v @ rest)") simp_all
    show ?thesis unfolding uv(1) using lp dr k by simp
  next
    assume a: "accepts ci r w rest"
    from "6.IH"(2) [OF a] obtain k where k: "re_match ci r (w @ rest) = Some k"
      by (cases "re_match ci r (w @ rest)") simp_all
    show ?thesis using k by (simp split: option.splits)
  qed
next
  case (7 ci r w rest)
  from "7.prems" have e: "w @ rest = [] \<or> w @ rest = [CHR 0x0A]" and a: "accepts ci r w rest"
    by simp_all
  from "7.IH" [OF a] have ih: "re_match ci r (w @ rest) \<noteq> None" .
  have "re_match ci (Eol # r) (w @ rest) = re_match ci r (w @ rest)"
    using e by (simp only: re_match.simps if_True)
  with ih show ?case by simp
qed

lemma accepts_rest:
  "Eol \<notin> set r \<Longrightarrow> accepts ci r w rest \<Longrightarrow> accepts ci r w rest'"
proof (induction ci r w rest rule: accepts.induct)
  case (1 ci w rest)
  then show ?case by simp
next
  case (2 ci l r w rest)
  from "2.prems"(2) obtain u v where uv: "w = u @ v" "lit_eq ci l u" "accepts ci r v rest"
    unfolding accepts.simps by (elim exE conjE) (rule that)
  from "2.prems"(1) have ne: "Eol \<notin> set r" by simp
  from "2.IH" [OF ne uv(3)] have "accepts ci r v rest'" .
  with uv(2) show ?case unfolding uv(1) by (rule accepts_LitI)
next
  case (3 ci cl r w rest)
  from "3.prems"(2) obtain x v where xv: "w = x # v" "cl x" "accepts ci r v rest"
    unfolding accepts.simps by (elim exE conjE) (rule that)
  from "3.prems"(1) have ne: "Eol \<notin> set r" by simp
  from "3.IH" [OF ne xv(3)] have "accepts ci r v rest'" .
  with xv(2) show ?case unfolding xv(1) by simp
next
  case (4 ci cl r w rest)
  from "4.prems"(2) obtain u v where uv: "w = u @ v" "\<forall>x\<in>set u. cl x" "accepts ci r v rest"
    unfolding accepts.simps by (elim exE conjE) (rule that)
  from "4.prems"(1) have ne: "Eol \<notin> set r" by simp
  from "4.IH" [OF ne uv(3)] have "accepts ci r v rest'" .
  with uv(2) show ?case unfolding uv(1) by (rule accepts_StarI)
next
  case (5 ci cl r w rest)
  from "5.prems"(2) obtain u v where uv: "w = u @ v" "u \<noteq> []" "\<forall>x\<in>set u. cl x" "accepts ci r v rest"
    unfolding accepts.simps by (elim exE conjE) (rule that)
  from "5.prems"(1) have ne: "Eol \<notin> set r" by simp
  from "5.IH" [OF ne uv(4)] have "accepts ci r v rest'" .
  with uv(2,3) show ?case unfolding uv(1) by (rule accepts_PlusI)
next
  case (6 ci l r w rest)
  from "6.prems"(1) have ne: "Eol \<notin> set r" by simp
  from "6.prems"(2) have "(\<exists>u v. w = u @ v \<and> lit_eq ci l u \<and> accepts ci r v rest) \<or> accepts ci r w rest"
    by simp
  then show ?case
  proof
    assume "\<exists>u v. w = u @ v \<and> lit_eq ci l u \<and> accepts ci r v rest"
    then obtain u v where uv: "w = u @ v" "lit_eq ci l u" "accepts ci r v rest"
      by (elim exE conjE) (rule that)
    from "6.IH"(1) [OF ne uv(3)] have "accepts ci r v rest'" .
    with uv(2) show ?thesis unfolding uv(1) by (rule accepts_OptI1)
  next
    assume a: "accepts ci r w rest"
    from "6.IH"(2) [OF ne a] show ?thesis by simp
  qed
next
  case (7 ci r w rest)
  then show ?case by simp
qed

section \<open>Where the units are inserted\<close>

lemma py_rfind_le: "py_rfind sub s = Some i \<Longrightarrow> i \<le> length s"
  by (induction s arbitrary: i) (auto split: option.splits if_splits)

lemma py_rfind_Some:
  "py_rfind sub s = Some i \<Longrightarrow>
     prefix sub (drop i s) \<and> (\<forall>j. i < j \<and> j \<le> length s \<longrightarrow> \<not> prefix sub (drop j s))"
proof (induction s arbitrary: i)
  case Nil
  then show ?case by (simp split: if_splits)
next
  case (Cons c s)
  show ?case
  proof (cases "py_rfind sub s")
    case None
    have none: "\<forall>j. j \<le> length s \<longrightarrow> \<not> prefix sub (drop j s)"
      using None
    proof (induction s)
      case Nil
      then show ?case by (simp split: if_splits)
    next
      case (Cons d t)
      from Cons.prems have n: "py_rfind sub t = None" and p: "\<not> prefix sub (d # t)"
        by (simp_all split: option.splits if_splits)
      from Cons.IH [OF n] have ih: "\<forall>j. j \<le> length t \<longrightarrow> \<not> prefix sub (drop j t)" .
      show ?case
      proof (intro allI impI)
        fix j assume j: "j \<le> length (d # t)"
        show "\<not> prefix sub (drop j (d # t))"
        proof (cases j)
          case 0
          with p show ?thesis by simp
        next
          case (Suc k)
          with j have "k \<le> length t" by simp
          with ih have "\<not> prefix sub (drop k t)" by simp
          with Suc show ?thesis by simp
        qed
      qed
    qed
    from None Cons.prems have i: "i = 0" and p: "prefix sub (c # s)"
      by (simp_all split: if_splits)
    show ?thesis
    proof (intro conjI allI impI)
      show "prefix sub (drop i (c # s))" using i p by simp
    next
      fix j assume j: "i < j \<and> j \<le> length (c # s)"
      then obtain k where k: "j = Suc k" using i by (cases j) simp_all
      with j have "k \<le> length s" by simp
      with none have "\<not> prefix sub (drop k s)" by simp
      with k show "\<not> prefix sub (drop j (c # s))" by simp
    qed
  next
    case (Some i')
    with Cons.prems have i: "i = Suc i'" by simp
    from Cons.IH [OF Some] have ih1: "prefix sub (drop i' s)"
      and ih2: "\<forall>j. i' < j \<and> j \<le> length s \<longrightarrow> \<not> prefix sub (drop j s)" by simp_all
    show ?thesis
    proof (intro conjI allI impI)
      show "prefix sub (drop i (c # s))" using i ih1 by simp
    next
      fix j assume j: "i < j \<and> j \<le> length (c # s)"
      then obtain k where k: "j = Suc k" by (cases j) simp_all
      with j i have "i' < k \<and> k \<le> length s" by simp
      with ih2 have "\<not> prefix sub (drop k s)" by simp
      with k show "\<not> prefix sub (drop j (c # s))" by simp
    qed
  qed
qed

lemma py_rfind_None:
  "py_rfind sub s = None \<Longrightarrow> \<forall>j. j \<le> length s \<longrightarrow> \<not> prefix sub (drop j s)"
proof (induction s)
  case Nil
  then show ?case by (simp split: if_splits)
next
  case (Cons d t)
  from Cons.prems have n: "py_rfind sub t = None" and p: "\<not> prefix sub (d # t)"
    by (simp_all split: option.splits if_splits)
  from Cons.IH [OF n] have ih: "\<forall>j. j \<le> length t \<longrightarrow> \<not> prefix sub (drop j t)" .
  show ?case
  proof (intro allI impI)
    fix j assume j: "j \<le> length (d # t)"
    show "\<not> prefix sub (drop j (d # t))"
    proof (cases j)
      case 0
      with p show ?thesis by simp
    next
      case (Suc k)
      with j have "k \<le> length t" by simp
      with ih have "\<not> prefix sub (drop k t)" by simp
      with Suc show ?thesis by simp
    qed
  qed
qed

lemma re_search_Some:
  "re_search m s = Some (i, n) \<Longrightarrow>
     i \<le> length s \<and> m (drop i s) = Some n \<and> (\<forall>j. j < i \<longrightarrow> m (drop j s) = None)"
proof (induction s arbitrary: i)
  case Nil
  then show ?case by auto
next
  case (Cons c s)
  show ?case
  proof (cases "m (c # s)")
    case (Some k)
    with Cons.prems show ?thesis by simp
  next
    case None
    with Cons.prems obtain i' where i': "re_search m s = Some (i', n)" "i = Suc i'"
      by (cases "re_search m s") auto
    from Cons.IH [OF i'(1)] have ih1: "i' \<le> length s" and ih2: "m (drop i' s) = Some n"
      and ih3: "\<forall>j. j < i' \<longrightarrow> m (drop j s) = None" by simp_all
    show ?thesis
    proof (intro conjI allI impI)
      show "i \<le> length (c # s)" using i'(2) ih1 by simp
      show "m (drop i (c # s)) = Some n" using i'(2) ih2 by simp
    next
      fix j assume j: "j < i"
      show "m (drop j (c # s)) = None"
      proof (cases j)
        case 0
        with None show ?thesis by simp
      next
        case (Suc k)
        with j i'(2) have "k < i'" by simp
        with ih3 have "m (drop k s) = None" by simp
        with Suc show ?thesis by simp
      qed
    qed
  qed
qed

lemma re_search_None:
  "re_search m s = None \<Longrightarrow> \<forall>j. j \<le> length s \<longrightarrow> m (drop j s) = None"
proof (induction s)
  case Nil
  then show ?case by simp
next
  case (Cons c s)
  from Cons.prems have h: "m (c # s) = None" and n: "re_search m s = None"
    by (simp_all split: option.splits)
  from Cons.IH [OF n] have ih: "\<forall>j. j \<le> length s \<longrightarrow> m (drop j s) = None" .
  show ?case
  proof (intro allI impI)
    fix j assume j: "j \<le> length (c # s)"
    show "m (drop j (c # s)) = None"
    proof (cases j)
      case 0
      with h show ?thesis by simp
    next
      case (Suc k)
      with j have "k \<le> length s" by simp
      with ih have "m (drop k s) = None" by simp
      with Suc show ?thesis by simp
    qed
  qed
qed

lemma re_scan_no_match:
  "\<forall>j. j \<le> length s \<longrightarrow> m (drop j s) = None \<Longrightarrow> re_scan m s = map Txt s"
proof (induction s)
  case Nil
  then have "m [] = None" by simp
  then show ?case by simp
next
  case (Cons c s)
  from Cons.prems have "0 \<le> length (c # s) \<longrightarrow> m (drop 0 (c # s)) = None" by (rule spec)
  then have h: "m (c # s) = None" by simp
  have "\<forall>j. j \<le> length s \<longrightarrow> m (drop j s) = None"
  proof (intro allI impI)
    fix j assume "j \<le> length s"
    then have "Suc j \<le> length (c # s)" by simp
    moreover from Cons.prems have "Suc j \<le> length (c # s) \<longrightarrow> m (drop (Suc j) (c # s)) = None"
      by (rule spec)
    ultimately show "m (drop j s) = None" by simp
  qed
  from Cons.IH [OF this] h show ?case by simp
qed

lemma re_sub_no_match:
  "\<forall>j. j \<le> length s \<longrightarrow> m (drop j s) = None \<Longrightarrow> re_sub m f s = s"
proof -
  assume "\<forall>j. j \<le> length s \<longrightarrow> m (drop j s) = None"
  then have "re_scan m s = map Txt s" by (rule re_scan_no_match)
  then have "re_sub m f s = concat (map (\<lambda>c. [c]) s)" by (simp add: re_sub_def o_def)
  also have "\<dots> = s" by (induction s) simp_all
  finally show ?thesis .
qed

lemma re_findall_no_match:
  "\<forall>j. j \<le> length s \<longrightarrow> m (drop j s) = None \<Longrightarrow> re_findall m s = []"
proof -
  assume "\<forall>j. j \<le> length s \<longrightarrow> m (drop j s) = None"
  then have "re_scan m s = map Txt s" by (rule re_scan_no_match)
  then show ?thesis by (simp add: re_findall_def o_def)
qed

lemma inject_at_cases:
  "(case py_rfind ''</head>'' lower of
      Some i \<Rightarrow>
        inject_at lower text = (take i text @ [CHR 0x0A] @ SNIPPET @ [CHR 0x0A] @ drop i text, True)
        \<and> prefix ''</head>'' (drop i lower)
        \<and> (\<forall>j. i < j \<longrightarrow> \<not> prefix ''</head>'' (drop j lower))
    | None \<Rightarrow>
        (case py_rfind ''</body>'' lower of
           Some i \<Rightarrow>
             inject_at lower text = (take i text @ [CHR 0x0A] @ SNIPPET @ [CHR 0x0A] @ drop i text, True)
             \<and> prefix ''</body>'' (drop i lower)
             \<and> (\<forall>j. i < j \<longrightarrow> \<not> prefix ''</body>'' (drop j lower))
         | None \<Rightarrow> inject_at lower text = (text @ [CHR 0x0A] @ SNIPPET @ [CHR 0x0A], True)))"
proof -
  have last_only: "\<forall>j. i < j \<longrightarrow> \<not> prefix sub (drop j lower)"
    if r: "py_rfind sub lower = Some i" and ne: "sub \<noteq> []" for sub i
  proof (intro allI impI)
    fix j assume j: "i < j"
    show "\<not> prefix sub (drop j lower)"
    proof (cases "j \<le> length lower")
      case True
      from py_rfind_Some [OF r] have "i < j \<and> j \<le> length lower \<longrightarrow> \<not> prefix sub (drop j lower)"
        by simp
      with j True show ?thesis by simp
    next
      case False
      then have "drop j lower = []" by simp
      with ne show ?thesis by simp
    qed
  qed
  show ?thesis
  proof (cases "py_rfind ''</head>'' lower")
    case (Some i)
    from py_rfind_Some [OF Some] have p: "prefix ''</head>'' (drop i lower)" by simp
    have l: "\<forall>j. i < j \<longrightarrow> \<not> prefix ''</head>'' (drop j lower)"
      by (rule last_only [OF Some]) simp
    have "inject_at lower text = (take i text @ [CHR 0x0A] @ SNIPPET @ [CHR 0x0A] @ drop i text, True)"
      using Some by (simp add: inject_at_def)
    with p l show ?thesis using Some by simp
  next
    case None
    show ?thesis
    proof (cases "py_rfind ''</body>'' lower")
      case (Some i)
      from py_rfind_Some [OF Some] have p: "prefix ''</body>'' (drop i lower)" by simp
      have l: "\<forall>j. i < j \<longrightarrow> \<not> prefix ''</body>'' (drop j lower)"
        by (rule last_only [OF Some]) simp
      have "inject_at lower text = (take i text @ [CHR 0x0A] @ SNIPPET @ [CHR 0x0A] @ drop i text, True)"
        using Some None by (simp add: inject_at_def)
      with p l show ?thesis using Some None by simp
    next
      case n2: None
      have "inject_at lower text = (text @ [CHR 0x0A] @ SNIPPET @ [CHR 0x0A], True)"
        using None n2 by (simp add: inject_at_def)
      then show ?thesis using None n2 by simp
    qed
  qed
qed

lemma ensure_canonical_cases:
  "re_search (re_match True RE_CANONICAL) html = None \<longrightarrow>
     (case re_search (re_match True RE_HEAD_CLOSE) html of
        Some (i, n) \<Rightarrow>
          insert_canonical (strip_canonical html) url
            = (take i html @ canonical_tag url @ [CHR 0x0A] @ drop i html, True)
          \<and> re_match True RE_HEAD_CLOSE (drop i html) = Some n
          \<and> (\<forall>j. j < i \<longrightarrow> re_match True RE_HEAD_CLOSE (drop j html) = None)
          \<and> ensure_canonical html url
              = fix_robots (take i html @ canonical_tag url @ [CHR 0x0A] @ drop i html)
          \<and> (re_search (re_match True RE_ROBOTS_URL)
                (take i html @ canonical_tag url @ [CHR 0x0A] @ drop i html) = None \<longrightarrow>
              ensure_canonical html url = take i html @ canonical_tag url @ [CHR 0x0A] @ drop i html)
      | None \<Rightarrow>
          insert_canonical (strip_canonical html) url = (html, False)
          \<and> ensure_canonical html url = canonical_tag url @ [CHR 0x0A] @ fix_robots html
          \<and> (re_search (re_match True RE_ROBOTS_URL) html = None \<longrightarrow>
              ensure_canonical html url = canonical_tag url @ [CHR 0x0A] @ html))"
proof
  assume "re_search (re_match True RE_CANONICAL) html = None"
  then have "\<forall>j. j \<le> length html \<longrightarrow> re_match True RE_CANONICAL (drop j html) = None"
    by (rule re_search_None)
  then have st: "strip_canonical html = html"
    unfolding strip_canonical_def by (rule re_sub_no_match)
  have rb: "fix_robots t = t" if "re_search (re_match True RE_ROBOTS_URL) t = None" for t
  proof -
    from that have "\<forall>j. j \<le> length t \<longrightarrow> re_match True RE_ROBOTS_URL (drop j t) = None"
      by (rule re_search_None)
    then show ?thesis unfolding fix_robots_def by (rule re_sub_no_match)
  qed
  show "case re_search (re_match True RE_HEAD_CLOSE) html of
        Some (i, n) \<Rightarrow>
          insert_canonical (strip_canonical html) url
            = (take i html @ canonical_tag url @ [CHR 0x0A] @ drop i html, True)
          \<and> re_match True RE_HEAD_CLOSE (drop i html) = Some n
          \<and> (\<forall>j. j < i \<longrightarrow> re_match True RE_HEAD_CLOSE (drop j html) = None)
          \<and> ensure_canonical html url
              = fix_robots (take i html @ canonical_tag url @ [CHR 0x0A] @ drop i html)
          \<and> (re_search (re_match True RE_ROBOTS_URL)
                (take i html @ canonical_tag url @ [CHR 0x0A] @ drop i html) = None \<longrightarrow>
              ensure_canonical html url = take i html @ canonical_tag url @ [CHR 0x0A] @ drop i html)
      | None \<Rightarrow>
          insert_canonical (strip_canonical html) url = (html, False)
          \<and> ensure_canonical html url = canonical_tag url @ [CHR 0x0A] @ fix_robots html
          \<and> (re_search (re_match True RE_ROBOTS_URL) html = None \<longrightarrow>
              ensure_canonical html url = canonical_tag url @ [CHR 0x0A] @ html)"
  proof (cases "re_search (re_match True RE_HEAD_CLOSE) html")
    case None
    have i: "insert_canonical (strip_canonical html) url = (html, False)"
      using None by (simp add: insert_canonical_def st)
    then have e: "ensure_canonical html url = canonical_tag url @ [CHR 0x0A] @ fix_robots html"
      by (simp add: ensure_canonical_def)
    have "re_search (re_match True RE_ROBOTS_URL) html = None \<longrightarrow>
              ensure_canonical html url = canonical_tag url @ [CHR 0x0A] @ html"
      using e rb [of html] by simp
    with i e show ?thesis using None by simp
  next
    case (Some p)
    obtain i n where p: "p = (i, n)" by (cases p)
    from re_search_Some [OF Some [unfolded p]] have
      m: "re_match True RE_HEAD_CLOSE (drop i html) = Some n
         \<and> (\<forall>j. j < i \<longrightarrow> re_match True RE_HEAD_CLOSE (drop j html) = None)" by simp
    have i: "insert_canonical (strip_canonical html) url
               = (take i html @ canonical_tag url @ [CHR 0x0A] @ drop i html, True)"
      using Some p by (simp add: insert_canonical_def st)
    then have e: "ensure_canonical html url
               = fix_robots (take i html @ canonical_tag url @ [CHR 0x0A] @ drop i html)"
      by (simp add: ensure_canonical_def)
    have "re_search (re_match True RE_ROBOTS_URL)
                (take i html @ canonical_tag url @ [CHR 0x0A] @ drop i html) = None \<longrightarrow>
              ensure_canonical html url = take i html @ canonical_tag url @ [CHR 0x0A] @ drop i html"
      using e rb [of "take i html @ canonical_tag url @ [CHR 0x0A] @ drop i html"] by simp
    with m i e show ?thesis using Some p by simp
  qed
qed

text \<open>
  Claim C9, as amended. The tracking snippet is inserted at the index at which the last
  closing head tag starts in the lower-cased text (else the last closing body tag there;
  else it is appended to the page); \<open>inject\<close> cuts the page itself at that index. The
  canonical link, for a page without a canonical link, is inserted by step 2 immediately
  before the first match of the closing head tag, searched from the start; the repair of
  the robots meta runs on the text with the link in it, so that text with the link before
  the first closing head tag is the result when the repair finds nothing to replace.
  Without a closing head tag the link is put before the repaired page.
\<close>

theorem C9_anchor_of_each_unit:
  "inject text = inject_at (py_lower text) text
   \<and> (case py_rfind ''</head>'' lower of
        Some i \<Rightarrow>
          inject_at lower text
            = (take i text @ [CHR 0x0A] @ SNIPPET @ [CHR 0x0A] @ drop i text, True)
          \<and> prefix ''</head>'' (drop i lower)
          \<and> (\<forall>j. i < j \<longrightarrow> \<not> prefix ''</head>'' (drop j lower))
      | None \<Rightarrow>
          (case py_rfind ''</body>'' lower of
             Some i \<Rightarrow>
               inject_at lower text
                 = (take i text @ [CHR 0x0A] @ SNIPPET @ [CHR 0x0A] @ drop i text, True)
               \<and> prefix ''</body>'' (drop i lower)
               \<and> (\<forall>j. i < j \<longrightarrow> \<not> prefix ''</body>'' (drop j lower))
           | None \<Rightarrow> inject_at lower text = (text @ [CHR 0x0A] @ SNIPPET @ [CHR 0x0A], True)))
   \<and> (re_search (re_match True RE_CANONICAL) html = None \<longrightarrow>
        (case re_search (re_match True RE_HEAD_CLOSE) html of
           Some (i, n) \<Rightarrow>
             insert_canonical (strip_canonical html) url
               = (take i html @ canonical_tag url @ [CHR 0x0A] @ drop i html, True)
             \<and> re_match True RE_HEAD_CLOSE (drop i html) = Some n
             \<and> (\<forall>j. j < i \<longrightarrow> re_match True RE_HEAD_CLOSE (drop j html) = None)
             \<and> ensure_canonical html url
                 = fix_robots (take i html @ canonical_tag url @ [CHR 0x0A] @ drop i html)
             \<and> (re_search (re_match True RE_ROBOTS_URL)
                   (take i html @ canonical_tag url @ [CHR 0x0A] @ drop i html) = None \<longrightarrow>
                 ensure_canonical html url
                   = take i html @ canonical_tag url @ [CHR 0x0A] @ drop i html)
         | None \<Rightarrow>
             insert_canonical (strip_canonical html) url = (html, False)
             \<and> ensure_canonical html url = canonical_tag url @ [CHR 0x0A] @ fix_robots html
             \<and> (re_search (re_match True RE_ROBOTS_URL) html = None \<longrightarrow>
                 ensure_canonical html url = canonical_tag url @ [CHR 0x0A] @ html)))"
proof (intro conjI)
  show "inject text = inject_at (py_lower text) text" by (simp add: inject_def)
qed (rule inject_at_cases, rule ensure_canonical_cases)

lemma doc_two_heads_facts:
  "py_rfind ''</head>'' (py_lower doc_two_heads) = Some 41"
  "re_search (re_match True RE_CANONICAL) doc_two_heads = None"
  "re_search (re_match True RE_HEAD_CLOSE) doc_two_heads = Some (23, 7)"
  "re_search (re_match True RE_ROBOTS_URL)
     (take 23 doc_two_heads @ canonical_tag ''https://acme.github.io/'' @ [CHR 0x0A]
        @ drop 23 doc_two_heads) = None"
  by code_simp+

lemma doc_two_heads_cut:
  \<open>take 23 doc_two_heads @ canonical_tag ''https://acme.github.io/'' @ [CHR 0x0A] @ drop 23 doc_two_heads
     = ''<head><script>var s = "<link rel="canonical" href="https://acme.github.io/">'' @ [CHR 0x0A] @
       ''</head>";</script></head><body></body>''\<close>
  \<open>take 41 doc_two_heads = ''<head><script>var s = "</head>";</script>''\<close>
  \<open>drop 41 doc_two_heads = ''</head><body></body>''\<close>
  by code_simp+

theorem C9_anchor_of_each_unit_witness:
  \<open>py_rfind ''</head>'' (py_lower doc_two_heads) = Some 41
   \<and> re_search (re_match True RE_CANONICAL) doc_two_heads = None
   \<and> re_search (re_match True RE_HEAD_CLOSE) doc_two_heads = Some (23, 7)
   \<and> re_search (re_match True RE_ROBOTS_URL)
        (take 23 doc_two_heads @ canonical_tag ''https://acme.github.io/'' @ [CHR 0x0A]
           @ drop 23 doc_two_heads) = None
   \<and> inject doc_two_heads
        = (''<head><script>var s = "</head>";</script>'' @ [CHR 0x0A] @ SNIPPET @ [CHR 0x0A]
             @ ''</head><body></body>'', True)
   \<and> ensure_canonical doc_two_heads ''https://acme.github.io/''
        = ''<head><script>var s = "<link rel="canonical" href="https://acme.github.io/">'' @ [CHR 0x0A] @
          ''</head>";</script></head><body></body>''\<close>
proof -
  note t = C9_anchor_of_each_unit [of doc_two_heads "py_lower doc_two_heads" doc_two_heads
      "''https://acme.github.io/''"]
  have a: "inject doc_two_heads = inject_at (py_lower doc_two_heads) doc_two_heads"
    using t by (rule conjunct1)
  have s: "inject_at (py_lower doc_two_heads) doc_two_heads
      = (take 41 doc_two_heads @ [CHR 0x0A] @ SNIPPET @ [CHR 0x0A] @ drop 41 doc_two_heads, True)"
    using t [THEN conjunct2, THEN conjunct1] unfolding doc_two_heads_facts(1) by simp
  have c: "ensure_canonical doc_two_heads ''https://acme.github.io/''
      = take 23 doc_two_heads @ canonical_tag ''https://acme.github.io/'' @ [CHR 0x0A]
          @ drop 23 doc_two_heads"
    by (rule t [THEN conjunct2, THEN conjunct2, THEN mp, OF doc_two_heads_facts(2),
          unfolded doc_two_heads_facts(3) option.case prod.case,
          THEN conjunct2, THEN conjunct2, THEN conjunct2, THEN conjunct2, THEN mp,
          OF doc_two_heads_facts(4)])
  have s2: \<open>inject doc_two_heads
        = (''<head><script>var s = "</head>";</script>'' @ [CHR 0x0A] @ SNIPPET @ [CHR 0x0A]
             @ ''</head><body></body>'', True)\<close>
    unfolding a s doc_two_heads_cut(2,3) by (rule refl)
  have c2: \<open>ensure_canonical doc_two_heads ''https://acme.github.io/''
        = ''<head><script>var s = "<link rel="canonical" href="https://acme.github.io/">'' @ [CHR 0x0A] @
          ''</head>";</script></head><body></body>''\<close>
    unfolding c by (rule doc_two_heads_cut(1))
  show ?thesis
    by (intro conjI) (rule doc_two_heads_facts s2 c2)+
qed

text \<open>
  \<open>inject_at\<close> cuts the page at the index found in the lowered text. Where the lowered
  text is longer than the page in front of the closing tag (the lower case of U+0130 has
  two code points), this index lies after the start of the tag in the page: with a lowered
  text one character longer, the snippet is put after the first character of the tag.
\<close>

lemma inject_at_longer_lower:
  \<open>inject_at ''i.</head>'' ''I</head>''
     = (''I<'' @ [CHR 0x0A] @ SNIPPET @ [CHR 0x0A] @ ''/head>'', True)\<close>
  by code_simp

text \<open>
  The repair of the robots meta can take the inserted link away again: in a page whose
  robots meta holds an address and is not closed before the closing head tag, the match of
  the repair runs up to the end of the inserted link, and the result has no canonical link.
\<close>

lemma robots_repair_swallows_link:
  \<open>insert_canonical (strip_canonical doc_open_meta) ''u''
     = (''<head><meta name="robots" content="http://x" <link rel="canonical" href="u">'' @ [CHR 0x0A]
          @ ''</head><body></body>'', True)\<close>
  \<open>ensure_canonical doc_open_meta ''u''
     = ''<head><meta name="robots" content="index, follow">'' @ [CHR 0x0A] @ ''</head><body></body>''\<close>
  by code_simp+

text \<open>
  Claim C9 as stated fails for the canonical link: in a page where the text of a closing
  head tag occurs before the closing tag itself, the link is put before the first
  occurrence (position 23), not before the one found from the end (position 41).
\<close>

theorem C9_canonical_link_uses_first_anchor:
  \<open>py_rfind ''</head>'' (py_lower doc_two_heads) = Some 41
   \<and> ensure_canonical doc_two_heads ''https://acme.github.io/''
       = take 23 doc_two_heads @ canonical_tag ''https://acme.github.io/'' @ [CHR 0x0A] @ drop 23 doc_two_heads
   \<and> ensure_canonical doc_two_heads ''https://acme.github.io/''
       \<noteq> take 41 doc_two_heads @ canonical_tag ''https://acme.github.io/'' @ [CHR 0x0A] @ drop 41 doc_two_heads\<close>
  by code_simp

section \<open>Excluded pages\<close>

lemma endswith_suffix: "endswith s p = suffix p s"
  by (simp add: endswith_def suffix_to_prefix)

lemma endswith_split: "endswith s p \<Longrightarrow> \<exists>pre. s = pre @ p"
  unfolding endswith_suffix suffix_def .

lemma endswith_lower: "endswith s p \<Longrightarrow> endswith (py_lower s) (py_lower p)"
proof -
  assume "endswith s p"
  then obtain pre where "s = pre @ p" by (auto dest: endswith_split)
  then have "py_lower s = py_lower pre @ py_lower p" by (simp add: py_lower_def)
  then show ?thesis unfolding endswith_suffix suffix_def by blast
qed

lemma lit_prefix_lower: "lit_prefix True l s \<Longrightarrow> prefix (py_lower l) (py_lower s)"
proof (induction True l s rule: lit_prefix.induct)
  case (1 s)
  then show ?case by (simp add: py_lower_def)
next
  case (2 p ps)
  then show ?case by simp
next
  case (3 p ps c cs)
  from "3.prems" have e: "char_eq True p c" and r: "lit_prefix True ps cs"
    by (simp_all split: if_splits)
  from "3.hyps" [OF e r] have "prefix (py_lower ps) (py_lower cs)" .
  with e show ?case by (simp add: py_lower_def char_eq_def)
qed

lemma lit_prefix_same_length:
  "lit_prefix True l s \<Longrightarrow> length s = length l \<Longrightarrow> py_lower s = py_lower l"
proof -
  assume a: "lit_prefix True l s" and b: "length s = length l"
  from a have "prefix (py_lower l) (py_lower s)" by (rule lit_prefix_lower)
  then obtain z where z: "py_lower s = py_lower l @ z" unfolding prefix_def by blast
  then have "length (py_lower s) = length (py_lower l) + length z" by simp
  with b have "z = []" by (simp add: py_lower_def)
  with z show ?thesis by simp
qed

lemma eol_match: "re_match ci [Eol] t = Some k \<Longrightarrow> t = [] \<or> t = [CHR 0x0A]"
proof (rule ccontr)
  assume m: "re_match ci [Eol] t = Some k" and "\<not> (t = [] \<or> t = [CHR 0x0A])"
  then have "re_match ci [Eol] t = None" by (simp only: re_match.simps if_False)
  with m show False by simp
qed

lemma lit_eol_match:
  assumes "re_match True [Lit l, Eol] s = Some n"
  shows "lit_prefix True l s \<and> (drop (length l) s = [] \<or> drop (length l) s = [CHR 0x0A])"
proof -
  have lp: "lit_prefix True l s"
  proof (rule ccontr)
    assume "\<not> lit_prefix True l s"
    then have "re_match True [Lit l, Eol] s = None" by (simp only: re_match.simps if_False)
    with assms show False by simp
  qed
  then have e: "re_match True [Lit l, Eol] s
      = map_option (\<lambda>n. length l + n) (re_match True [Eol] (drop (length l) s))"
    by (simp only: re_match.simps if_True)
  obtain k where "re_match True [Eol] (drop (length l) s) = Some k"
  proof (cases "re_match True [Eol] (drop (length l) s)")
    case None
    with e assms show ?thesis by simp
  next
    case (Some k)
    then show ?thesis by (rule that)
  qed
  then have "drop (length l) s = [] \<or> drop (length l) s = [CHR 0x0A]" by (rule eol_match)
  with lp show ?thesis by (rule conjI)
qed

lemma html_name_last: "endswith s ''.html'' \<Longrightarrow> s \<noteq> [] \<and> last s = CHR ''l''"
  by (auto dest!: endswith_split)

lemma lit_eol_html:
  assumes "re_match True [Lit l, Eol] s = Some n" and "endswith s ''.html''"
  shows "py_lower s = py_lower l"
proof -
  from lit_eol_match [OF assms(1)] have lp: "lit_prefix True l s"
    and d: "drop (length l) s = [] \<or> drop (length l) s = [CHR 0x0A]" by simp_all
  from html_name_last [OF assms(2)] have ne: "s \<noteq> []" and la: "last s = CHR ''l''" by simp_all
  have "drop (length l) s \<noteq> [CHR 0x0A]"
  proof
    assume e: "drop (length l) s = [CHR 0x0A]"
    have "s = take (length l) s @ drop (length l) s" by simp
    with e have "s = take (length l) s @ [CHR 0x0A]" by simp
    then have "last s = CHR 0x0A" by (metis last_snoc)
    with la show False by simp
  qed
  with d have "drop (length l) s = []" by simp
  then have "length s \<le> length l" by simp
  with lit_prefix_length [OF lp] have "length s = length l" by simp
  with lp show ?thesis by (rule lit_prefix_same_length)
qed

lemma lit_eol_not_html:
  assumes "re_match True [Lit l, Eol] s = Some n" and "endswith s ''.html''"
  shows "endswith (py_lower l) ''.html''"
proof -
  from lit_eol_html [OF assms] have e: "py_lower s = py_lower l" .
  from endswith_lower [OF assms(2)] have "endswith (py_lower s) (py_lower ''.html'')" .
  moreover have "py_lower ''.html'' = ''.html''"
    by (simp add: py_lower_def lower_char_def is_upper_def)
  ultimately show ?thesis using e by simp
qed

lemma lower_literals:
  "py_lower ''404.html'' = ''404.html''"
  "py_lower ''CNAME'' = ''cname''"
  "py_lower ''sitemap.xml'' = ''sitemap.xml''"
  "py_lower ''rss.xml'' = ''rss.xml''"
  "py_lower ''feed.xml'' = ''feed.xml''"
  "py_lower ''atom.xml'' = ''atom.xml''"
  "py_lower ''google'' = ''google''"
  "py_lower ''yandex_'' = ''yandex_''"
  by (simp_all add: py_lower_def lower_char_def is_upper_def)

lemma xml_eol_not_html_suffix:
  assumes "re_match True [Lit ''.xml'', Eol] (drop j s) = Some n" and "endswith s ''.html''"
  shows False
proof -
  note m = lit_eol_match [OF assms(1)]
  from m have lp: "lit_prefix True ''.xml'' (drop j s)" by (rule conjunct1)
  have len: "length ''.xml'' = 4" by simp
  from m have "drop (length ''.xml'') (drop j s) = [] \<or> drop (length ''.xml'') (drop j s) = [CHR 0x0A]"
    by (rule conjunct2)
  then have d: "drop (4 + j) s = [] \<or> drop (4 + j) s = [CHR 0x0A]"
    unfolding len drop_drop .
  from assms(2) obtain pre where s: "s = pre @ ''.html''" by (auto dest: endswith_split)
  from lit_prefix_length [OF lp] have l4: "4 \<le> length s - j" by simp
  have "drop (4 + j) s \<noteq> [CHR 0x0A]"
  proof
    assume e: "drop (4 + j) s = [CHR 0x0A]"
    have "s = take (4 + j) s @ drop (4 + j) s" by simp
    with e have "s = take (4 + j) s @ [CHR 0x0A]" by simp
    then have "last s = CHR 0x0A" by (metis last_snoc)
    with s show False by simp
  qed
  with d have "drop (4 + j) s = []" by simp
  then have "length s \<le> 4 + j" by simp
  with l4 have j: "j = length pre + 1" using s by simp
  have "drop j s = ''html''" unfolding j s by simp
  with lp show False by (simp add: char_eq_def lower_char_def is_upper_def)
qed

lemma lit_match:
  assumes "re_match ci (Lit l # r) s = Some n"
  shows "lit_prefix ci l s \<and> (\<exists>k. re_match ci r (drop (length l) s) = Some k \<and> n = length l + k)"
proof -
  have lp: "lit_prefix ci l s"
  proof (rule ccontr)
    assume "\<not> lit_prefix ci l s"
    then have "re_match ci (Lit l # r) s = None" by (simp only: re_match.simps if_False)
    with assms show False by simp
  qed
  then have e: "re_match ci (Lit l # r) s
      = map_option (\<lambda>n. length l + n) (re_match ci r (drop (length l) s))"
    by (simp only: re_match.simps if_True)
  have "\<exists>k. re_match ci r (drop (length l) s) = Some k \<and> n = length l + k"
  proof (cases "re_match ci r (drop (length l) s)")
    case None
    with e assms show ?thesis by simp
  next
    case (Some k)
    with e assms have "n = length l + k" by simp
    with Some show ?thesis by simp
  qed
  with lp show ?thesis by (rule conjI)
qed

lemma opt_match:
  assumes "re_match ci (Opt l # r) s = Some n"
  shows "(\<exists>k. re_match ci r (drop (length l) s) = Some k) \<or> re_match ci r s = Some n"
proof (cases "re_match ci r (drop (length l) s)")
  case (Some k)
  then show ?thesis by simp
next
  case None
  then have "(if lit_prefix ci l s
        then map_option (\<lambda>n. length l + n) (re_match ci r (drop (length l) s))
        else None) = None" by simp
  then have "re_match ci (Opt l # r) s = re_match ci r s"
    by (simp only: re_match.simps option.case)
  with assms show ?thesis by simp
qed

lemma sitemap_alt_not_html:
  assumes "re_match True [Lit ''sitemap'', Opt ''-index'', Lit ''.xml'', Eol] s = Some n"
    and "endswith s ''.html''"
  shows False
proof -
  from lit_match [OF assms(1)] obtain k where
    k: "re_match True [Opt ''-index'', Lit ''.xml'', Eol] (drop (length ''sitemap'') s) = Some k"
    by (elim conjE exE)
  from opt_match [OF k] show False
  proof
    assume "\<exists>m. re_match True [Lit ''.xml'', Eol] (drop (length ''-index'') (drop (length ''sitemap'') s)) = Some m"
    then obtain m where
      "re_match True [Lit ''.xml'', Eol] (drop (length ''-index'' + length ''sitemap'') s) = Some m"
      unfolding drop_drop by (elim exE)
    from xml_eol_not_html_suffix [OF this assms(2)] show False .
  next
    assume "re_match True [Lit ''.xml'', Eol] (drop (length ''sitemap'') s) = Some k"
    from xml_eol_not_html_suffix [OF this assms(2)] show False .
  qed
qed

lemma lit_first:
  "re_match True (Lit l # r) s = Some n \<Longrightarrow> startswith (py_lower s) (py_lower l)"
proof -
  assume "re_match True (Lit l # r) s = Some n"
  then have "lit_prefix True l s" by (simp split: if_splits)
  then show ?thesis unfolding startswith_def by (rule lit_prefix_lower)
qed

lemma re_alts_Cons_iff:
  "re_alts ci (a # as) s \<noteq> None \<longleftrightarrow> re_match ci a s \<noteq> None \<or> re_alts ci as s \<noteq> None"
  by (cases "re_match ci a s") simp_all

lemma alts_RE:
  "re_alts True EXCLUDE_FILES_RE s \<noteq> None \<longleftrightarrow>
     re_match True [Lit ''404.html'', Eol] s \<noteq> None
   \<or> re_match True [Lit ''CNAME'', Eol] s \<noteq> None
   \<or> re_match True [Lit ''sitemap'', Opt ''-index'', Lit ''.xml'', Eol] s \<noteq> None
   \<or> re_match True [Lit ''rss.xml'', Eol] s \<noteq> None
   \<or> re_match True [Lit ''feed.xml'', Eol] s \<noteq> None
   \<or> re_match True [Lit ''atom.xml'', Eol] s \<noteq> None
   \<or> re_match True [Lit ''google'', Plus is_alnum, Lit ''.html'', Eol] s \<noteq> None
   \<or> re_match True [Lit ''yandex_'', Plus is_alnum, Lit ''.html'', Eol] s \<noteq> None"
  unfolding EXCLUDE_FILES_RE_def
  by (simp only: re_alts_Cons_iff re_alts.simps(1) simp_thms)

lemma alts_REGEX:
  "re_alts True EXCLUDE_FILES_REGEX s \<noteq> None \<longleftrightarrow>
     re_match True [Lit ''404.html'', Eol] s \<noteq> None
   \<or> re_match True [Lit ''CNAME'', Eol] s \<noteq> None
   \<or> re_match True [Lit ''sitemap.xml'', Eol] s \<noteq> None
   \<or> re_match True [Lit ''rss.xml'', Eol] s \<noteq> None
   \<or> re_match True [Lit ''feed.xml'', Eol] s \<noteq> None
   \<or> re_match True [Lit ''atom.xml'', Eol] s \<noteq> None
   \<or> re_match True [Lit ''google'', Plus is_alnum, Lit ''.html'', Eol] s \<noteq> None
   \<or> re_match True [Lit ''yandex_'', Plus is_alnum, Lit ''.html'', Eol] s \<noteq> None"
  unfolding EXCLUDE_FILES_REGEX_def
  by (simp only: re_alts_Cons_iff re_alts.simps(1) simp_thms)

lemma not_html_literals:
  "\<not> endswith ''cname'' ''.html''"
  "\<not> endswith ''sitemap.xml'' ''.html''"
  "\<not> endswith ''rss.xml'' ''.html''"
  "\<not> endswith ''feed.xml'' ''.html''"
  "\<not> endswith ''atom.xml'' ''.html''"
  by (simp_all add: endswith_def)

lemma lit_eol_None:
  assumes "endswith s ''.html''" and "\<not> endswith (py_lower l) ''.html''"
  shows "re_match True [Lit l, Eol] s = None"
proof (cases "re_match True [Lit l, Eol] s")
  case None
  then show ?thesis .
next
  case (Some n)
  from lit_eol_not_html [OF Some assms(1)] have "endswith (py_lower l) ''.html''" .
  with assms(2) show ?thesis by (rule notE)
qed

lemma sitemap_alt_None:
  assumes "endswith s ''.html''"
  shows "re_match True [Lit ''sitemap'', Opt ''-index'', Lit ''.xml'', Eol] s = None"
proof (cases "re_match True [Lit ''sitemap'', Opt ''-index'', Lit ''.xml'', Eol] s")
  case None
  then show ?thesis .
next
  case (Some n)
  from sitemap_alt_not_html [OF Some assms] show ?thesis by (rule FalseE)
qed

lemma other_alts_None:
  assumes h: "endswith s ''.html''"
  shows "re_match True [Lit ''CNAME'', Eol] s = None"
    and "re_match True [Lit ''sitemap.xml'', Eol] s = None"
    and "re_match True [Lit ''rss.xml'', Eol] s = None"
    and "re_match True [Lit ''feed.xml'', Eol] s = None"
    and "re_match True [Lit ''atom.xml'', Eol] s = None"
proof -
  show "re_match True [Lit ''CNAME'', Eol] s = None"
    by (rule lit_eol_None [OF h]) (simp only: lower_literals not_html_literals not_False_eq_True)
  show "re_match True [Lit ''sitemap.xml'', Eol] s = None"
    by (rule lit_eol_None [OF h]) (simp only: lower_literals not_html_literals not_False_eq_True)
  show "re_match True [Lit ''rss.xml'', Eol] s = None"
    by (rule lit_eol_None [OF h]) (simp only: lower_literals not_html_literals not_False_eq_True)
  show "re_match True [Lit ''feed.xml'', Eol] s = None"
    by (rule lit_eol_None [OF h]) (simp only: lower_literals not_html_literals not_False_eq_True)
  show "re_match True [Lit ''atom.xml'', Eol] s = None"
    by (rule lit_eol_None [OF h]) (simp only: lower_literals not_html_literals not_False_eq_True)
qed

lemma excluded_html_alts:
  assumes h: "endswith s ''.html''"
  shows "re_alts True EXCLUDE_FILES_RE s \<noteq> None \<longleftrightarrow>
           re_match True [Lit ''404.html'', Eol] s \<noteq> None
         \<or> re_match True [Lit ''google'', Plus is_alnum, Lit ''.html'', Eol] s \<noteq> None
         \<or> re_match True [Lit ''yandex_'', Plus is_alnum, Lit ''.html'', Eol] s \<noteq> None"
    and "re_alts True EXCLUDE_FILES_REGEX s \<noteq> None \<longleftrightarrow>
           re_match True [Lit ''404.html'', Eol] s \<noteq> None
         \<or> re_match True [Lit ''google'', Plus is_alnum, Lit ''.html'', Eol] s \<noteq> None
         \<or> re_match True [Lit ''yandex_'', Plus is_alnum, Lit ''.html'', Eol] s \<noteq> None"
  unfolding alts_RE alts_REGEX other_alts_None [OF h] sitemap_alt_None [OF h]
  by (simp_all only: simp_thms)

lemma excluded_html_both:
  assumes "re_alts True EXCLUDE_FILES_RE s \<noteq> None \<or> re_alts True EXCLUDE_FILES_REGEX s \<noteq> None"
    and h: "endswith s ''.html''"
  shows "re_alts True EXCLUDE_FILES_RE s \<noteq> None \<and> re_alts True EXCLUDE_FILES_REGEX s \<noteq> None
         \<and> (py_lower s = ''404.html'' \<or> startswith (py_lower s) ''yandex_''
              \<or> startswith (py_lower s) ''google'')"
proof -
  from assms(1) have k: "re_match True [Lit ''404.html'', Eol] s \<noteq> None
         \<or> re_match True [Lit ''google'', Plus is_alnum, Lit ''.html'', Eol] s \<noteq> None
         \<or> re_match True [Lit ''yandex_'', Plus is_alnum, Lit ''.html'', Eol] s \<noteq> None"
    unfolding excluded_html_alts [OF h] by (simp only: simp_thms)
  have c: "py_lower s = ''404.html'' \<or> startswith (py_lower s) ''yandex_''
              \<or> startswith (py_lower s) ''google''"
    using k
  proof (elim disjE)
    assume "re_match True [Lit ''404.html'', Eol] s \<noteq> None"
    then obtain n where n: "re_match True [Lit ''404.html'', Eol] s = Some n"
      by (cases "re_match True [Lit ''404.html'', Eol] s") (simp_all only: not_None_eq option.simps simp_thms)
    from lit_eol_html [OF n h] have "py_lower s = ''404.html''" unfolding lower_literals .
    then show ?thesis by (rule disjI1)
  next
    assume "re_match True [Lit ''google'', Plus is_alnum, Lit ''.html'', Eol] s \<noteq> None"
    then obtain n where n: "re_match True [Lit ''google'', Plus is_alnum, Lit ''.html'', Eol] s = Some n"
      by (cases "re_match True [Lit ''google'', Plus is_alnum, Lit ''.html'', Eol] s")
         (simp_all only: not_None_eq option.simps simp_thms)
    from lit_first [OF n] have "startswith (py_lower s) ''google''" unfolding lower_literals .
    then show ?thesis by (intro disjI2)
  next
    assume "re_match True [Lit ''yandex_'', Plus is_alnum, Lit ''.html'', Eol] s \<noteq> None"
    then obtain n where n: "re_match True [Lit ''yandex_'', Plus is_alnum, Lit ''.html'', Eol] s = Some n"
      by (cases "re_match True [Lit ''yandex_'', Plus is_alnum, Lit ''.html'', Eol] s")
         (simp_all only: not_None_eq option.simps simp_thms)
    from lit_first [OF n] have "startswith (py_lower s) ''yandex_''" unfolding lower_literals .
    then show ?thesis by (intro disjI2 disjI1)
  qed
  from k have a: "re_alts True EXCLUDE_FILES_RE s \<noteq> None"
    unfolding excluded_html_alts(1) [OF h] .
  from k have b: "re_alts True EXCLUDE_FILES_REGEX s \<noteq> None"
    unfolding excluded_html_alts(2) [OF h] .
  from a b c show ?thesis by (intro conjI)
qed

text \<open>
  Claim C8. A page of the walk (a file whose name ends in \<^verbatim>\<open>.html\<close>) whose name matches
  the exclusion pattern of the sitemap generator or of the feed generator (the 404 page,
  the verification files of the search engines) matches both patterns, has no canonical
  address (\<open>build_canonical_for\<close> returns the empty text, which \<open>main\<close> takes as no
  address), is read but never written by the canonical-link script, and adds no entry to
  the sitemap and no item to the feed: the entries and items are those of the tree
  without the page.
\<close>

theorem C8_excluded_pages:
  assumes "re_alts True EXCLUDE_FILES_RE (path_name (parts p)) \<noteq> None
           \<or> re_alts True EXCLUDE_FILES_REGEX (path_name (parts p)) \<noteq> None"
    and "endswith (path_name (parts p)) ''.html''"
  shows "build_canonical_for (parts p) base = []
     \<and> events (fix_file base st p) = events st @ [Read (parts p)]
     \<and> changed_files (fix_file base st p) = changed_files st
     \<and> collect b (xs @ p # ys) = collect b (xs @ ys)
     \<and> collect_items env (xs @ p # ys) = collect_items env (xs @ ys)"
proof -
  note f = excluded_html_both [OF assms]
  from f have c: "py_lower (path_name (parts p)) = ''404.html''
      \<or> startswith (py_lower (path_name (parts p))) ''yandex_''
      \<or> startswith (py_lower (path_name (parts p))) ''google''"
    by (elim conjE)
  then have u: "build_canonical_for (parts p) base = []"
    by (simp add: build_canonical_for_def Let_def)
  have e: "events (fix_file base st p) = events st @ [Read (parts p)]"
    by (cases "utf8 p") (simp_all add: fix_file_def Let_def u)
  have g: "changed_files (fix_file base st p) = changed_files st"
    by (cases "utf8 p") (simp_all add: fix_file_def Let_def u)
  from f have "re_alts True EXCLUDE_FILES_RE (path_name (parts p)) \<noteq> None" by (elim conjE)
  then have "\<not> sitemap_keep p" by (simp add: sitemap_keep_def)
  then have s: "collect b (xs @ p # ys) = collect b (xs @ ys)"
    by (simp add: collect_def rglob_def)
  from f have "re_alts True EXCLUDE_FILES_REGEX (path_name (parts p)) \<noteq> None" by (elim conjE)
  then have "\<not> rss_keep p" by (simp add: rss_keep_def)
  then have r: "collect_items env (xs @ p # ys) = collect_items env (xs @ ys)"
    by (simp add: collect_items_def rglob_def)
  from u e g s r show ?thesis by (intro conjI)
qed

lemma excluded_page_facts:
  "re_alts True EXCLUDE_FILES_RE (path_name (parts page_404)) = Some 8"
  "endswith (path_name (parts page_404)) ''.html''"
  "re_alts True EXCLUDE_FILES_REGEX (path_name (parts page_verification)) = Some 19"
  "endswith (path_name (parts page_verification)) ''.html''"
  by code_simp+

lemma kept_page_facts:
  \<open>build_canonical_for (parts page_about) ''https://acme.github.io''
     = ''https://acme.github.io/about.html''\<close>
  \<open>events (fix_file ''https://acme.github.io'' fix_state0 page_about)
     = [Read [''about.html''],
        Write [''about.html'']
          (''<head><title>About</title><link rel="canonical" href="https://acme.github.io/about.html">''
             @ [CHR 0x0A] @ ''</head>'')]\<close>
  \<open>collect ''https://acme.github.io'' [page_about]
     = [\<lparr>loc = ''https://acme.github.io/about.html'', lastmod = ''2025-01-01T00:00:00Z'',
         dt = (2025, 1, 1, 0, 0, 0)\<rparr>]\<close>
  \<open>collect_items rss_env0 [page_about]
     = [\<lparr>title = ''A page'', link = ''https://acme.github.io/about.html'',
         guid = ''https://acme.github.io/about.html'',
         pubDate = ''Wed, 01 Jan 2025 00:00:00 +0000'',
         dt_sort = (2025, 1, 1, 0, 0, 0), description = ''A page''\<rparr>]\<close>
  \<open>events fix_state0 = []\<close>
  \<open>changed_files fix_state0 = 0\<close>
  \<open>parts page_404 = [''404.html'']\<close>
  \<open>parts page_verification = [''google1a2b3c4d.html'']\<close>
  by code_simp+

theorem C8_excluded_pages_witness:
  \<open>re_alts True EXCLUDE_FILES_RE (path_name (parts page_404)) = Some 8
   \<and> endswith (path_name (parts page_404)) ''.html''
   \<and> re_alts True EXCLUDE_FILES_REGEX (path_name (parts page_verification)) = Some 19
   \<and> endswith (path_name (parts page_verification)) ''.html''
   \<and> build_canonical_for (parts page_404) ''https://acme.github.io'' = []
   \<and> build_canonical_for (parts page_verification) ''https://acme.github.io'' = []
   \<and> build_canonical_for (parts page_about) ''https://acme.github.io''
       = ''https://acme.github.io/about.html''
   \<and> events (fix_file ''https://acme.github.io'' fix_state0 page_404) = [Read [''404.html'']]
   \<and> changed_files (fix_file ''https://acme.github.io'' fix_state0 page_404) = 0
   \<and> events (fix_file ''https://acme.github.io'' fix_state0 page_verification)
       = [Read [''google1a2b3c4d.html'']]
   \<and> events (fix_file ''https://acme.github.io'' fix_state0 page_about)
       = [Read [''about.html''],
          Write [''about.html'']
            (''<head><title>About</title><link rel="canonical" href="https://acme.github.io/about.html">''
               @ [CHR 0x0A] @ ''</head>'')]
   \<and> collect ''https://acme.github.io'' [page_404, page_about, page_verification]
       = [\<lparr>loc = ''https://acme.github.io/about.html'', lastmod = ''2025-01-01T00:00:00Z'',
           dt = (2025, 1, 1, 0, 0, 0)\<rparr>]
   \<and> collect_items rss_env0 [page_404, page_about, page_verification]
       = [\<lparr>title = ''A page'', link = ''https://acme.github.io/about.html'',
           guid = ''https://acme.github.io/about.html'',
           pubDate = ''Wed, 01 Jan 2025 00:00:00 +0000'',
           dt_sort = (2025, 1, 1, 0, 0, 0), description = ''A page''\<rparr>]\<close>
proof -
  have h1: "re_alts True EXCLUDE_FILES_RE (path_name (parts page_404)) \<noteq> None
      \<or> re_alts True EXCLUDE_FILES_REGEX (path_name (parts page_404)) \<noteq> None"
    by (rule disjI1) (simp only: excluded_page_facts(1) option.distinct not_False_eq_True)
  have h2: "re_alts True EXCLUDE_FILES_RE (path_name (parts page_verification)) \<noteq> None
      \<or> re_alts True EXCLUDE_FILES_REGEX (path_name (parts page_verification)) \<noteq> None"
    by (rule disjI2) (simp only: excluded_page_facts(3) option.distinct not_False_eq_True)
  note a = C8_excluded_pages [OF h1 excluded_page_facts(2),
      of "''https://acme.github.io''" fix_state0 "''https://acme.github.io''"
         "[]" "[page_about, page_verification]" rss_env0]
  note v = C8_excluded_pages [OF h2 excluded_page_facts(4),
      of "''https://acme.github.io''" fix_state0 "''https://acme.github.io''"
         "[page_about]" "[]" rss_env0]
  from a have a1: "build_canonical_for (parts page_404) ''https://acme.github.io'' = []"
    by (elim conjE)
  from v have v1: "build_canonical_for (parts page_verification) ''https://acme.github.io'' = []"
    by (elim conjE)
  from a have a2: "events (fix_file ''https://acme.github.io'' fix_state0 page_404) = [Read [''404.html'']]"
    unfolding kept_page_facts(5,7) append_Nil by (elim conjE)
  from a have a3: "changed_files (fix_file ''https://acme.github.io'' fix_state0 page_404) = 0"
    unfolding kept_page_facts(6) by (elim conjE)
  from v have v2: "events (fix_file ''https://acme.github.io'' fix_state0 page_verification)
       = [Read [''google1a2b3c4d.html'']]"
    unfolding kept_page_facts(5,8) append_Nil by (elim conjE)
  from a have "collect ''https://acme.github.io'' [page_404, page_about, page_verification]
      = collect ''https://acme.github.io'' [page_about, page_verification]"
    unfolding append_Nil by (elim conjE)
  also from v have "\<dots> = collect ''https://acme.github.io'' [page_about]"
    unfolding append_Nil append_Cons append_Nil2 by (elim conjE)
  finally have s: "collect ''https://acme.github.io'' [page_404, page_about, page_verification]
      = [\<lparr>loc = ''https://acme.github.io/about.html'', lastmod = ''2025-01-01T00:00:00Z'',
           dt = (2025, 1, 1, 0, 0, 0)\<rparr>]"
    unfolding kept_page_facts(3) .
  from a have "collect_items rss_env0 [page_404, page_about, page_verification]
      = collect_items rss_env0 [page_about, page_verification]"
    unfolding append_Nil by (elim conjE)
  also from v have "\<dots> = collect_items rss_env0 [page_about]"
    unfolding append_Nil append_Cons append_Nil2 by (elim conjE)
  finally have r: \<open>collect_items rss_env0 [page_404, page_about, page_verification]
       = [\<lparr>title = ''A page'', link = ''https://acme.github.io/about.html'',
           guid = ''https://acme.github.io/about.html'',
           pubDate = ''Wed, 01 Jan 2025 00:00:00 +0000'',
           dt_sort = (2025, 1, 1, 0, 0, 0), description = ''A page''\<rparr>]\<close>
    unfolding kept_page_facts(4) .
  show ?thesis
    by (intro conjI)
       (rule excluded_page_facts a1 v1 a2 a3 v2 s r kept_page_facts(1) kept_page_facts(2))+
qed

text \<open>
  The test of the canonicalizer is wider than the pattern of the generators: it takes every
  name that starts with \<^verbatim>\<open>google\<close> or \<^verbatim>\<open>yandex_\<close>. A page with such a name that is not a
  verification file has no canonical address, and is kept by both generators.
\<close>

lemma canonicalizer_test_is_wider:
  "build_canonical_for [''google-maps.html''] ''https://acme.github.io'' = []"
  "re_alts True EXCLUDE_FILES_RE ''google-maps.html'' = None"
  "re_alts True EXCLUDE_FILES_REGEX ''google-maps.html'' = None"
  "sitemap_keep (page [''google-maps.html''] t)"
  "rss_keep (page [''google-maps.html''] t)"
proof -
  show "build_canonical_for [''google-maps.html''] ''https://acme.github.io'' = []"
    by code_simp
  show a: "re_alts True EXCLUDE_FILES_RE ''google-maps.html'' = None"
    by code_simp
  show b: "re_alts True EXCLUDE_FILES_REGEX ''google-maps.html'' = None"
    by code_simp
  have n: "path_name [''google-maps.html''] = ''google-maps.html''"
    by code_simp
  have d: "\<not> list_ex (\<lambda>x. x \<in> set EXCLUDE_DIRS) [''google-maps.html'']"
    by code_simp
  show "sitemap_keep (page [''google-maps.html''] t)"
    using a d by (simp add: sitemap_keep_def page_def n)
  show "rss_keep (page [''google-maps.html''] t)"
    using b d by (simp add: rss_keep_def page_def n)
qed

section \<open>The number of canonical links\<close>

text \<open>
  Claim C2 fails in both directions. In a page without a canonical link whose robots meta
  holds an address and is not closed before the closing head tag, step 3 replaces the text
  from the meta up to the end of the link that step 2 has just inserted: the result holds
  no canonical link at all. In a page where a canonical link is written inside the name of
  another link tag, the single pass of step 1 removes the inner link and leaves the outer
  text as a canonical link, so that the result holds two.
\<close>

theorem C2_not_exactly_one_link:
  \<open>re_findall (re_match True RE_CANONICAL) doc_open_meta = []
   \<and> ensure_canonical doc_open_meta ''https://acme.github.io/''
       = ''<head><meta name="robots" content="index, follow">'' @ [CHR 0x0A] @ ''</head><body></body>''
   \<and> re_findall (re_match True RE_CANONICAL)
         (ensure_canonical doc_open_meta ''https://acme.github.io/'') = []
   \<and> \<not> py_in ''canonical'' (ensure_canonical doc_open_meta ''https://acme.github.io/'')
   \<and> ensure_canonical doc_nested ''https://acme.github.io/''
       = ''<head><link rel="canonical"><link rel="canonical" href="https://acme.github.io/">''
           @ [CHR 0x0A] @ ''</head>''
   \<and> re_findall (re_match True RE_CANONICAL)
         (ensure_canonical doc_nested ''https://acme.github.io/'')
       = [''<link rel="canonical">'', ''<link rel="canonical" href="https://acme.github.io/">'']\<close>
proof -
  have e1: \<open>ensure_canonical doc_open_meta ''https://acme.github.io/''
       = ''<head><meta name="robots" content="index, follow">'' @ [CHR 0x0A] @ ''</head><body></body>''\<close>
    by code_simp
  have e2: \<open>ensure_canonical doc_nested ''https://acme.github.io/''
       = ''<head><link rel="canonical"><link rel="canonical" href="https://acme.github.io/">''
           @ [CHR 0x0A] @ ''</head>''\<close>
    by code_simp
  have a: "re_findall (re_match True RE_CANONICAL) doc_open_meta = []"
    by code_simp
  have b: "re_findall (re_match True RE_CANONICAL)
         (ensure_canonical doc_open_meta ''https://acme.github.io/'') = []"
    unfolding e1 by code_simp
  have c: "\<not> py_in ''canonical'' (ensure_canonical doc_open_meta ''https://acme.github.io/'')"
    unfolding e1 by code_simp
  have d: \<open>re_findall (re_match True RE_CANONICAL)
         (ensure_canonical doc_nested ''https://acme.github.io/'')
       = [''<link rel="canonical">'', ''<link rel="canonical" href="https://acme.github.io/">'']\<close>
    unfolding e2 by code_simp
  from a e1 b c e2 d show ?thesis by (intro conjI)
qed

end
